theory Spec2Isabelle
  imports Main
begin

section \<open>Client sync engine: the three-way merge of \<open>Project.tsx\<close>\<close>

text \<open>
  An element of the drawing, as far as synchronisation reads it: its \<open>id\<close>, its
  \<open>version\<close> (a JavaScript number holding an integer) and the rest of the object, which
  the merge copies and never inspects.
\<close>

record element =
  id_el :: string
  version :: int
  payload :: string

text \<open>
  \<^verbatim>\<open>new Map(els.map((el) => [el.id, el]))\<close>: the entries are inserted in order, so a later
  element with the same id replaces an earlier one.
\<close>

definition newMap :: "element list \<Rightarrow> (string \<rightharpoonup> element)" where
  "newMap els = foldl (\<lambda>m el. m(id_el el \<mapsto> el)) Map.empty els"

text \<open>
  The body of the first loop of \<open>mergeElements\<close>: the element pushed for one element of
  \<open>incoming\<close>. An object is truthy, so \<^verbatim>\<open>currentEl && lastSyncedEl\<close> holds exactly when
  both lookups found an element.
\<close>

definition pushedFor :: "(string \<rightharpoonup> element) \<Rightarrow> (string \<rightharpoonup> element) \<Rightarrow> element \<Rightarrow> element" where
  "pushedFor currentMap lastSyncedMap incomingEl =
     (case currentMap (id_el incomingEl) of
        None \<Rightarrow> incomingEl
      | Some currentEl \<Rightarrow>
          (case lastSyncedMap (id_el incomingEl) of
             None \<Rightarrow> incomingEl
           | Some lastSyncedEl \<Rightarrow>
               if version currentEl > version lastSyncedEl
               then (if version currentEl \<ge> version incomingEl then currentEl else incomingEl)
               else incomingEl))"

text \<open>\<^verbatim>\<open>for (const incomingEl of incoming) { ... merged.push(...) }\<close>\<close>

fun mergeIncoming ::
  "(string \<rightharpoonup> element) \<Rightarrow> (string \<rightharpoonup> element) \<Rightarrow> element list \<Rightarrow> element list \<Rightarrow> element list"
where
  "mergeIncoming currentMap lastSyncedMap [] merged = merged"
| "mergeIncoming currentMap lastSyncedMap (incomingEl # rest) merged =
     mergeIncoming currentMap lastSyncedMap rest
       (merged @ [pushedFor currentMap lastSyncedMap incomingEl])"

text \<open>
  \<^verbatim>\<open>for (const currentEl of current) { if (!incomingMap.has(currentEl.id)) { ... } }\<close>:
  a local element is appended when its id is neither in \<open>incoming\<close> nor in \<open>lastSynced\<close>.
\<close>

fun mergeLocal ::
  "(string \<rightharpoonup> element) \<Rightarrow> (string \<rightharpoonup> element) \<Rightarrow> element list \<Rightarrow> element list \<Rightarrow> element list"
where
  "mergeLocal incomingMap lastSyncedMap [] merged = merged"
| "mergeLocal incomingMap lastSyncedMap (currentEl # rest) merged =
     (if incomingMap (id_el currentEl) = None
      then (case lastSyncedMap (id_el currentEl) of
              None \<Rightarrow> mergeLocal incomingMap lastSyncedMap rest (merged @ [currentEl])
            | Some lastSyncedEl \<Rightarrow> mergeLocal incomingMap lastSyncedMap rest merged)
      else mergeLocal incomingMap lastSyncedMap rest merged)"

definition mergeElements :: "element list \<Rightarrow> element list \<Rightarrow> element list \<Rightarrow> element list" where
  "mergeElements current incoming lastSynced =
     (if length lastSynced = 0 then incoming
      else
        let currentMap = newMap current;
            incomingMap = newMap incoming;
            lastSyncedMap = newMap lastSynced;
            merged = mergeIncoming currentMap lastSyncedMap incoming []
        in mergeLocal incomingMap lastSyncedMap current merged)"

section \<open>Client sync engine: the throttled send\<close>

text \<open>
  The refs and hook values that \<open>sendUpdate\<close> reads and writes.
  \<open>pendingUpdate\<close> is the pending timer of \<open>pendingUpdateRef\<close>, with its delay in
  milliseconds and the elements its callback has captured; \<open>subscriptionSocketID\<close> is
  \<^verbatim>\<open>subscriptionData?.project.socketID\<close>, absent while no subscription data has arrived.
\<close>

record client =
  lastSyncedElements :: "element list"
  pendingUpdate :: "(nat \<times> element list) option"
  subscriptionSocketID :: "string option"

text \<open>How the promise returned by \<^verbatim>\<open>getApolloClient().mutate(...)\<close> settles.\<close>

datatype mutateOutcome = Resolved | Rejected

text \<open>
  What a timer callback does besides writing the refs: the mutation it issues (elements
  and socket id), a \<^verbatim>\<open>console.error\<close>, and a timer set for a retry (delay in
  milliseconds, and the elements \<open>sendUpdate\<close> is called with when it fires).
\<close>

datatype effect =
    Mutate "element list" string
  | ConsoleError
  | SetTimeout nat "element list"

text \<open>
  \<open>sendUpdate\<close> of \<open>Project.tsx\<close>: a pending timer is cleared and replaced by one of
  100 ms.
\<close>

definition sendUpdate :: "element list \<Rightarrow> client \<Rightarrow> client" where
  "sendUpdate elements c = c\<lparr>pendingUpdate := Some (100, elements)\<rparr>"

text \<open>
  The callback of that timer, in \<open>Project.tsx\<close>. The mutation is issued and not awaited:
  \<open>lastSyncedElementsRef.current = elements\<close> is the next statement, whatever becomes of
  the promise; a rejection is logged by the \<^verbatim>\<open>.catch\<close> handler. A string is truthy when it
  is not empty.
\<close>

definition sendUpdateTimeout :: "mutateOutcome \<Rightarrow> client \<Rightarrow> client \<times> effect list" where
  "sendUpdateTimeout outcome c =
     (case pendingUpdate c of
        None \<Rightarrow> (c, [])
      | Some (delay, elements) \<Rightarrow>
          (case subscriptionSocketID c of
             None \<Rightarrow> (c\<lparr>pendingUpdate := None\<rparr>, [])
           | Some sid \<Rightarrow>
               if sid \<noteq> []
               then (c\<lparr>lastSyncedElements := elements, pendingUpdate := None\<rparr>,
                     Mutate elements sid #
                       (case outcome of Resolved \<Rightarrow> [] | Rejected \<Rightarrow> [ConsoleError]))
               else (c\<lparr>pendingUpdate := None\<rparr>, [])))"

subsection \<open>The enhanced component\<close>

datatype connectionStatus = Connected | Disconnected | Syncing

record clientEnhanced = client +
  connectionStatus :: connectionStatus
  retryCount :: nat

definition MAX_RETRIES :: nat where
  "MAX_RETRIES = 3"

definition getThrottleDelay :: "nat \<Rightarrow> nat" where
  "getThrottleDelay elementCount =
     (if elementCount < 50 then 100
      else if elementCount < 200 then 200
      else if elementCount < 500 then 300
      else 500)"

definition sendUpdateEnhanced :: "element list \<Rightarrow> clientEnhanced \<Rightarrow> clientEnhanced" where
  "sendUpdateEnhanced elements c =
     c\<lparr>pendingUpdate := Some (getThrottleDelay (length elements), elements)\<rparr>"

text \<open>
  The callback of the timer in the enhanced component. The mutation is awaited inside
  \<^verbatim>\<open>try\<close>: the statements after it run when the promise resolves, the \<^verbatim>\<open>catch\<close> block
  when it rejects. The callback is taken as one step, with the outcome of the promise
  given; the development-mode metrics are left out.
\<close>

definition sendUpdateEnhancedTimeout ::
  "mutateOutcome \<Rightarrow> clientEnhanced \<Rightarrow> clientEnhanced \<times> effect list"
where
  "sendUpdateEnhancedTimeout outcome c =
     (case pendingUpdate c of
        None \<Rightarrow> (c, [])
      | Some (delay, elements) \<Rightarrow>
          (case subscriptionSocketID c of
             None \<Rightarrow> (c\<lparr>pendingUpdate := None\<rparr>, [])
           | Some sid \<Rightarrow>
               if sid \<noteq> []
               then
                 (let c1 = c\<lparr>connectionStatus := Syncing\<rparr> in
                  case outcome of
                    Resolved \<Rightarrow>
                      (c1\<lparr>lastSyncedElements := elements, connectionStatus := Connected,
                          retryCount := 0, pendingUpdate := None\<rparr>,
                       [Mutate elements sid])
                  | Rejected \<Rightarrow>
                      (let c2 = c1\<lparr>connectionStatus := Disconnected\<rparr> in
                       if retryCount c2 < MAX_RETRIES
                       then
                         (let c3 = c2\<lparr>retryCount := retryCount c2 + 1\<rparr> in
                          (c3\<lparr>pendingUpdate := None\<rparr>,
                           [Mutate elements sid, ConsoleError,
                            SetTimeout (1000 * retryCount c3) elements]))
                       else (c2\<lparr>pendingUpdate := None\<rparr>, [Mutate elements sid, ConsoleError])))
               else (c\<lparr>pendingUpdate := None\<rparr>, [])))"

text \<open>
  The effect that monitors the subscription hook: it runs whenever the hook's error,
  loading flag or data change, and every subscription message is new data. With data and
  neither error nor loading it sets the status to connected and the retry count to 0.
\<close>

definition subscriptionEffect :: "bool \<Rightarrow> bool \<Rightarrow> bool \<Rightarrow> clientEnhanced \<Rightarrow> clientEnhanced" where
  "subscriptionEffect subscriptionError subscriptionLoading subscriptionData c =
     (if subscriptionError then c\<lparr>connectionStatus := Disconnected\<rparr>
      else if subscriptionLoading then c\<lparr>connectionStatus := Syncing\<rparr>
      else if subscriptionData then c\<lparr>connectionStatus := Connected, retryCount := 0\<rparr>
      else c)"

text \<open>
  What happens to the component between and around its sends. A throttled cycle is a call
  of \<open>sendUpdate\<close> (by an edit, or by a retry timer) whose timer fires; its mutation is
  rejected or resolves. A change of the subscription hook brings the error and loading
  flags, the socket id of the data (none without data) and, when the effect that merges
  the incoming snapshot goes on to assign it to \<open>lastSyncedElementsRef\<close>, those elements.
\<close>

datatype event =
    SendFails "element list"
  | SendSucceeds "element list"
  | Subscription bool bool "string option" "element list option"

fun handle :: "event \<Rightarrow> clientEnhanced \<Rightarrow> clientEnhanced \<times> effect list" where
  "handle (SendFails elements) c = sendUpdateEnhancedTimeout Rejected (sendUpdateEnhanced elements c)"
| "handle (SendSucceeds elements) c = sendUpdateEnhancedTimeout Resolved (sendUpdateEnhanced elements c)"
| "handle (Subscription subscriptionError subscriptionLoading dataSocketID incoming) c =
     (let c1 = subscriptionEffect subscriptionError subscriptionLoading (dataSocketID \<noteq> None)
                 (c\<lparr>subscriptionSocketID := dataSocketID\<rparr>)
      in (case incoming of
            None \<Rightarrow> c1
          | Some incomingElements \<Rightarrow> c1\<lparr>lastSyncedElements := incomingElements\<rparr>),
      [])"

text \<open>A sequence of events, in order; the effects are collected.\<close>

definition runEvents :: "event list \<Rightarrow> clientEnhanced \<Rightarrow> clientEnhanced \<times> effect list" where
  "runEvents evs c =
     foldl (\<lambda>(c1, effs) ev. case handle ev c1 of (c2, effs') \<Rightarrow> (c2, effs @ effs')) (c, []) evs"

text \<open>
  The events that reset the retry count: a send that succeeds, and a change of the hook
  that brings data with neither error nor loading (a subscription message).
\<close>

fun resets :: "event \<Rightarrow> bool" where
  "resets (SendFails elements) = False"
| "resets (SendSucceeds elements) = True"
| "resets (Subscription subscriptionError subscriptionLoading dataSocketID incoming) =
     (\<not> subscriptionError \<and> \<not> subscriptionLoading \<and> dataSocketID \<noteq> None)"

fun isFailure :: "event \<Rightarrow> bool" where
  "isFailure (SendFails elements) = True"
| "isFailure ev = False"

text \<open>The number of failed sends since the last event that resets the count.\<close>

definition failuresSinceReset :: "event list \<Rightarrow> nat" where
  "failuresSinceReset evs = length (filter isFailure (takeWhile (\<lambda>ev. \<not> resets ev) (rev evs)))"

text \<open>The hook never loses its data, and the data carry a socket id that is not empty.\<close>

fun socketPresent :: "event \<Rightarrow> bool" where
  "socketPresent (Subscription subscriptionError subscriptionLoading dataSocketID incoming) =
     (case dataSocketID of None \<Rightarrow> False | Some sid \<Rightarrow> sid \<noteq> [])"
| "socketPresent ev = True"

text \<open>The retry timers among the effects: delay and elements of each, in order.\<close>

fun retries :: "effect list \<Rightarrow> (nat \<times> element list) list" where
  "retries [] = []"
| "retries (SetTimeout delay elements # effs) = (delay, elements) # retries effs"
| "retries (eff # effs) = retries effs"

section \<open>Server: the subscriber registry of \<open>resolver.go\<close>\<close>

text \<open>
  Modelled from the spec: the generated type \<open>model.ProjectSubscription\<close> is not among the
  sources. The update record has a document id, the serialized element snapshot and a
  socket id, the field \<open>SocketID\<close> that \<open>broadcastProjectUpdate\<close> writes.
\<close>

record ProjectSubscription =
  ID :: string
  Elements :: string
  SocketID :: string

text \<open>
  A Go channel of pointers to update records: the queued values, the capacity it was made
  with, and whether it has been closed. A channel value is a reference, here the address
  of the channel in \<open>chans\<close>; an update record is passed by pointer, here its address in
  \<open>heap\<close>. Channels and pointers are not nil. A send is ready when the buffer has
  room; a receiver that waits on an unbuffered channel is not modelled (the delivery
  channels are buffered).
\<close>

record chanState =
  ch_buf :: "nat list"
  ch_cap :: nat
  ch_closed :: bool

record ProjectSubscriber =
  sockedID :: string
  channel :: nat

text \<open>
  The resolver's map together with the memory it points into. \<open>nextChan\<close> is the address
  the next \<^verbatim>\<open>make(chan ...)\<close> returns.
\<close>

record server =
  projectSubscribers :: "string \<rightharpoonup> ProjectSubscriber list"
  chans :: "nat \<Rightarrow> chanState"
  heap :: "nat \<Rightarrow> ProjectSubscription"
  nextChan :: nat

text \<open>The run-time panics of Go that the registry's channel operations can raise.\<close>

datatype panic = SendOnClosedChannel | CloseOfClosedChannel

definition NewResolver :: server where
  "NewResolver =
     \<lparr>projectSubscribers = Map.empty,
      chans = (\<lambda>c. \<lparr>ch_buf = [], ch_cap = 0, ch_closed = False\<rparr>),
      heap = (\<lambda>p. \<lparr>ID = [], Elements = [], SocketID = []\<rparr>),
      nextChan = 0\<rparr>"

text \<open>\<^verbatim>\<open>m[key]\<close> on a Go map: the nil slice, of length 0, when the key is absent.\<close>

definition index :: "(string \<rightharpoonup> ProjectSubscriber list) \<Rightarrow> string \<Rightarrow> ProjectSubscriber list" where
  "index m key = (case m key of None \<Rightarrow> [] | Some subscribers \<Rightarrow> subscribers)"

text \<open>
  \<open>subscribeToProject\<close>. The token is the value of \<open>generateRandom8DigitString()\<close>, the
  random draw being an argument here; nothing checks that it is new.
\<close>

definition subscribeToProject :: "string \<Rightarrow> nat \<Rightarrow> string \<Rightarrow> server \<Rightarrow> string \<times> server" where
  "subscribeToProject projectID ch token st =
     (let subscriber = \<lparr>sockedID = token, channel = ch\<rparr>
      in (sockedID subscriber,
          st\<lparr>projectSubscribers :=
               (projectSubscribers st)
                 (projectID \<mapsto> index (projectSubscribers st) projectID @ [subscriber])\<rparr>))"

text \<open>\<^verbatim>\<open>close(ch)\<close>: closing a closed channel panics.\<close>

definition closeChan :: "nat \<Rightarrow> server \<Rightarrow> panic + server" where
  "closeChan ch st =
     (if ch_closed (chans st ch) then Inl CloseOfClosedChannel
      else Inr (st\<lparr>chans := (chans st)(ch := (chans st ch)\<lparr>ch_closed := True\<rparr>)\<rparr>))"

text \<open>
  The loop of \<open>unsubscribeFromProject\<close>: the index and the value of the first subscriber
  with the given socket id, where the loop removes it and breaks.
\<close>

fun unsubscribeLoop :: "string \<Rightarrow> ProjectSubscriber list \<Rightarrow> nat \<Rightarrow> (nat \<times> ProjectSubscriber) option" where
  "unsubscribeLoop socketID [] i = None"
| "unsubscribeLoop socketID (subscriber # rest) i =
     (if sockedID subscriber = socketID then Some (i, subscriber)
      else unsubscribeLoop socketID rest (Suc i))"

text \<open>\<^verbatim>\<open>if len(r.projectSubscribers[projectID]) == 0 { delete(...) }\<close>\<close>

definition cleanUp :: "string \<Rightarrow> server \<Rightarrow> server" where
  "cleanUp projectID st =
     (if length (index (projectSubscribers st) projectID) = 0
      then st\<lparr>projectSubscribers := (projectSubscribers st)(projectID := None)\<rparr>
      else st)"

definition unsubscribeFromProject :: "string \<Rightarrow> string \<Rightarrow> server \<Rightarrow> panic + server" where
  "unsubscribeFromProject projectID socketID st =
     (let subscribers = index (projectSubscribers st) projectID
      in case unsubscribeLoop socketID subscribers 0 of
           None \<Rightarrow> Inr (cleanUp projectID st)
         | Some (i, subscriber) \<Rightarrow>
             (let st1 = st\<lparr>projectSubscribers :=
                             (projectSubscribers st)
                               (projectID \<mapsto> take i subscribers @ drop (Suc i) subscribers)\<rparr>
              in case closeChan (channel subscriber) st1 of
                   Inl p \<Rightarrow> Inl p
                 | Inr st2 \<Rightarrow> Inr (cleanUp projectID st2)))"

text \<open>
  The loop of \<open>broadcastProjectUpdate\<close>. \<open>project\<close> is the pointer the caller passed: the
  assignment to \<open>project.SocketID\<close> writes the one record all subscribers are sent. In
  \<^verbatim>\<open>select { case ch <- project: default: }\<close> the send goes ahead when the buffer has room,
  the default case is taken when it has none, and a send on a closed channel panics.
\<close>

fun broadcastLoop :: "nat \<Rightarrow> string \<Rightarrow> ProjectSubscriber list \<Rightarrow> server \<Rightarrow> panic + server" where
  "broadcastLoop project fromID [] st = Inr st"
| "broadcastLoop project fromID (subscriber # rest) st =
     (if sockedID subscriber = fromID then broadcastLoop project fromID rest st
      else
        let st1 = st\<lparr>heap := (heap st)(project := (heap st project)\<lparr>SocketID := sockedID subscriber\<rparr>)\<rparr>;
            ch = chans st1 (channel subscriber)
        in if ch_closed ch then Inl SendOnClosedChannel
           else if length (ch_buf ch) < ch_cap ch
           then broadcastLoop project fromID rest
                  (st1\<lparr>chans := (chans st1)(channel subscriber := ch\<lparr>ch_buf := ch_buf ch @ [project]\<rparr>)\<rparr>)
           else broadcastLoop project fromID rest st1)"

definition broadcastProjectUpdate :: "string \<Rightarrow> nat \<Rightarrow> string \<Rightarrow> server \<Rightarrow> panic + server" where
  "broadcastProjectUpdate projectID project fromID st =
     (case projectSubscribers st projectID of
        Some subscribers \<Rightarrow> broadcastLoop project fromID subscribers st
      | None \<Rightarrow> Inr st)"

subsection \<open>Sequences of registry operations\<close>

text \<open>\<^verbatim>\<open>make(chan *model.ProjectSubscription, capacity)\<close>: a new, open, empty channel.\<close>

definition makeChan :: "nat \<Rightarrow> server \<Rightarrow> nat \<times> server" where
  "makeChan capacity st =
     (nextChan st,
      st\<lparr>chans := (chans st)(nextChan st := \<lparr>ch_buf = [], ch_cap = capacity, ch_closed = False\<rparr>),
         nextChan := Suc (nextChan st)\<rparr>)"

text \<open>
  Modelled from the spec: the subscription resolver that calls \<open>subscribeToProject\<close>
  (\<open>project.resolvers.go\<close>) is not among the sources. The specification's Subscribe
  creates a delivery channel of capacity 1 and registers it under a new token.
\<close>

definition Subscribe :: "string \<Rightarrow> string \<Rightarrow> server \<Rightarrow> (string \<times> nat) \<times> server" where
  "Subscribe projectID token st =
     (case makeChan 1 st of
        (ch, st1) \<Rightarrow>
          (case subscribeToProject projectID ch token st1 of
             (socketID, st2) \<Rightarrow> ((socketID, ch), st2)))"

text \<open>
  A receive by the session that reads a delivery channel: the oldest queued value leaves
  the buffer; with nothing queued the state stays as it is.
\<close>

definition receive :: "nat \<Rightarrow> server \<Rightarrow> server" where
  "receive ch st = st\<lparr>chans := (chans st)(ch := (chans st ch)\<lparr>ch_buf := tl (ch_buf (chans st ch))\<rparr>)\<rparr>"

datatype op =
    OpSubscribe string string
  | OpUnsubscribe string string
  | OpBroadcast string nat string
  | OpReceive nat

fun step :: "op \<Rightarrow> server \<Rightarrow> panic + server" where
  "step (OpSubscribe projectID token) st = Inr (snd (Subscribe projectID token st))"
| "step (OpUnsubscribe projectID socketID) st = unsubscribeFromProject projectID socketID st"
| "step (OpBroadcast projectID project fromID) st = broadcastProjectUpdate projectID project fromID st"
| "step (OpReceive ch) st = Inr (receive ch st)"

fun run :: "op list \<Rightarrow> server \<Rightarrow> panic + server" where
  "run [] st = Inr st"
| "run (x # xs) st = (case step x st of Inl p \<Rightarrow> Inl p | Inr st' \<Rightarrow> run xs st')"

text \<open>
  The discipline of the registry: no key with an empty list; every registered channel has
  been made, is open, and is registered once in the whole map.
\<close>

definition wellFormed :: "server \<Rightarrow> bool" where
  "wellFormed st \<longleftrightarrow>
     (\<forall>d l. projectSubscribers st d = Some l \<longrightarrow>
        l \<noteq> [] \<and> distinct (map channel l) \<and>
        (\<forall>s \<in> set l. channel s < nextChan st \<and> \<not> ch_closed (chans st (channel s)))) \<and>
     (\<forall>d d' l l'. d \<noteq> d' \<longrightarrow> projectSubscribers st d = Some l \<longrightarrow>
        projectSubscribers st d' = Some l' \<longrightarrow> channel ` set l \<inter> channel ` set l' = {})"

subsection \<open>Example states\<close>

text \<open>Two clients have subscribed to the document \<open>doc\<close>, in this order.\<close>

abbreviation twoSubscribers :: server where
  "twoSubscribers \<equiv>
     snd (Subscribe ''doc'' ''22222222'' (snd (Subscribe ''doc'' ''11111111'' NewResolver)))"

text \<open>A third client has subscribed to the same document.\<close>

abbreviation threeSubscribers :: server where
  "threeSubscribers \<equiv> snd (Subscribe ''doc'' ''33333333'' twoSubscribers)"

section \<open>Facts about the merge\<close>

lemma newMap_snoc: "newMap (els @ [el]) = (newMap els)(id_el el \<mapsto> el)"
  by (simp add: newMap_def)

lemma newMap_None: "newMap els k = None \<longleftrightarrow> k \<notin> id_el ` set els"
  by (induction els rule: rev_induct) (auto simp: newMap_snoc newMap_def)

lemma newMap_Some: "newMap els k = Some e \<Longrightarrow> e \<in> set els \<and> id_el e = k"
  by (induction els rule: rev_induct) (auto simp: newMap_snoc newMap_def split: if_splits)

lemma newMap_distinct:
  "distinct (map id_el els) \<Longrightarrow> e \<in> set els \<Longrightarrow> newMap els (id_el e) = Some e"
  by (induction els rule: rev_induct) (force simp: newMap_snoc image_iff)+

lemma mergeIncoming_map:
  "mergeIncoming cm lm incoming merged = merged @ map (pushedFor cm lm) incoming"
  by (induction incoming arbitrary: merged) simp_all

lemma mergeLocal_filter:
  "mergeLocal im lm current merged =
     merged @ filter (\<lambda>c. im (id_el c) = None \<and> lm (id_el c) = None) current"
  by (induction current arbitrary: merged) (simp_all split: option.splits)

lemma mergeElements_eq:
  "lastSynced \<noteq> [] \<Longrightarrow>
   mergeElements current incoming lastSynced =
     map (pushedFor (newMap current) (newMap lastSynced)) incoming @
     filter (\<lambda>c. newMap incoming (id_el c) = None \<and> newMap lastSynced (id_el c) = None) current"
  by (simp add: mergeElements_def Let_def mergeIncoming_map mergeLocal_filter)

lemma pushedFor_id: "id_el (pushedFor (newMap current) lm x) = id_el x"
  by (auto simp: pushedFor_def dest: newMap_Some split: option.splits)

lemma pushedFor_cases:
  "pushedFor cm lm x = x \<or>
   (\<exists>c l. cm (id_el x) = Some c \<and> lm (id_el x) = Some l \<and> version l < version c \<and>
          version x \<le> version c \<and> pushedFor cm lm x = c)"
  by (auto simp: pushedFor_def split: option.splits)

lemma pushedFor_local:
  "cm (id_el x) = Some c \<Longrightarrow> lm (id_el x) = Some l \<Longrightarrow> version l < version c \<Longrightarrow>
   pushedFor cm lm x = (if version x \<le> version c then c else x)"
  by (simp add: pushedFor_def)

lemma newMap_nonempty: "newMap els k = Some e \<Longrightarrow> els \<noteq> []"
  by (auto simp: newMap_def)

lemma mergeElements_ids:
  "lastSynced \<noteq> [] \<Longrightarrow>
   map id_el (mergeElements current incoming lastSynced) =
     map id_el incoming @
     map id_el (filter (\<lambda>c. id_el c \<notin> id_el ` set incoming \<and> id_el c \<notin> id_el ` set lastSynced)
                  current)"
  by (simp add: mergeElements_eq pushedFor_id newMap_None cong: map_cong)

section \<open>Local edit wins\<close>

text \<open>
  C1. For an element of \<open>incoming\<close> (at position \<open>i\<close>) whose id \<open>current\<close> holds with a
  version strictly above the one \<open>lastSynced\<close> holds for that id and not below the incoming
  one, the merge result has the copy of \<open>current\<close> at that position; and when the ids of
  \<open>incoming\<close> are pairwise distinct, it is the only element with that id in the result,
  so the incoming copy is not there.
\<close>

theorem mergeElements_local_wins:
  assumes "i < length incoming"
    and "newMap current (id_el (incoming ! i)) = Some currentEl"
    and "newMap lastSynced (id_el (incoming ! i)) = Some lastSyncedEl"
    and "version currentEl > version lastSyncedEl"
    and "version currentEl \<ge> version (incoming ! i)"
  shows "mergeElements current incoming lastSynced ! i = currentEl \<and>
         currentEl \<in> set (mergeElements current incoming lastSynced) \<and>
         (distinct (map id_el incoming) \<longrightarrow>
            (\<forall>e \<in> set (mergeElements current incoming lastSynced).
               id_el e = id_el (incoming ! i) \<longrightarrow> e = currentEl))"
proof -
  let ?cm = "newMap current" and ?lm = "newMap lastSynced"
  let ?res = "mergeElements current incoming lastSynced"
  let ?tail = "filter (\<lambda>c. newMap incoming (id_el c) = None \<and> ?lm (id_el c) = None) current"
  have ne: "lastSynced \<noteq> []"
    using assms(3) by (rule newMap_nonempty)
  have res: "?res = map (pushedFor ?cm ?lm) incoming @ ?tail"
    using ne by (rule mergeElements_eq)
  have picked: "pushedFor ?cm ?lm (incoming ! i) = currentEl"
    using assms(2-5) by (simp add: pushedFor_local)
  have at_i: "?res ! i = currentEl"
    using assms(1) picked by (simp add: res nth_append)
  have len: "i < length ?res"
    using assms(1) by (simp add: res)
  have mem: "currentEl \<in> set ?res"
    using at_i len nth_mem by metis
  have only: "e = currentEl"
    if d: "distinct (map id_el incoming)" and e: "e \<in> set ?res"
      and ide: "id_el e = id_el (incoming ! i)" for e
  proof -
    from e res consider (head) "e \<in> pushedFor ?cm ?lm ` set incoming" | (tail) "e \<in> set ?tail"
      by auto
    then show ?thesis
    proof cases
      case head
      then obtain x where x: "x \<in> set incoming" and ex: "e = pushedFor ?cm ?lm x"
        by auto
      then obtain j where j: "j < length incoming" and xj: "x = incoming ! j"
        by (auto simp: in_set_conv_nth)
      have "id_el (incoming ! j) = id_el (incoming ! i)"
        using ide ex xj by (simp add: pushedFor_id)
      then have "j = i"
        using d j assms(1) by (metis distinct_conv_nth length_map nth_map)
      then show ?thesis
        using ex xj picked by simp
    next
      case tail
      then have "newMap incoming (id_el e) = None"
        by simp
      then have "id_el (incoming ! i) \<notin> id_el ` set incoming"
        using ide by (simp add: newMap_None)
      then show ?thesis
        using assms(1) by simp
    qed
  qed
  show ?thesis
    using at_i mem only by blast
qed

text \<open>
  The scenario of the specification: last-synced holds X at version 1, the local copy is
  at version 2, a stale update carrying X at version 1 arrives; X stays at version 2.
\<close>

theorem mergeElements_local_wins_witness:
  "(0::nat) < length [\<lparr>id_el = ''X'', version = 1, payload = ''remote''\<rparr>] \<and>
   newMap [\<lparr>id_el = ''X'', version = 2, payload = ''local''\<rparr>] ''X''
     = Some \<lparr>id_el = ''X'', version = 2, payload = ''local''\<rparr> \<and>
   newMap [\<lparr>id_el = ''X'', version = 1, payload = ''remote''\<rparr>] ''X''
     = Some \<lparr>id_el = ''X'', version = 1, payload = ''remote''\<rparr> \<and>
   mergeElements [\<lparr>id_el = ''X'', version = 2, payload = ''local''\<rparr>]
                 [\<lparr>id_el = ''X'', version = 1, payload = ''remote''\<rparr>]
                 [\<lparr>id_el = ''X'', version = 1, payload = ''remote''\<rparr>] ! 0
     = \<lparr>id_el = ''X'', version = 2, payload = ''local''\<rparr> \<and>
   \<lparr>id_el = ''X'', version = 2, payload = ''local''\<rparr>
     \<in> set (mergeElements [\<lparr>id_el = ''X'', version = 2, payload = ''local''\<rparr>]
                 [\<lparr>id_el = ''X'', version = 1, payload = ''remote''\<rparr>]
                 [\<lparr>id_el = ''X'', version = 1, payload = ''remote''\<rparr>]) \<and>
   \<lparr>id_el = ''X'', version = 1, payload = ''remote''\<rparr>
     \<notin> set (mergeElements [\<lparr>id_el = ''X'', version = 2, payload = ''local''\<rparr>]
                 [\<lparr>id_el = ''X'', version = 1, payload = ''remote''\<rparr>]
                 [\<lparr>id_el = ''X'', version = 1, payload = ''remote''\<rparr>])"
  using mergeElements_local_wins
    [of 0 "[\<lparr>id_el = ''X'', version = 1, payload = ''remote''\<rparr>]"
        "[\<lparr>id_el = ''X'', version = 2, payload = ''local''\<rparr>]"
        "\<lparr>id_el = ''X'', version = 2, payload = ''local''\<rparr>"
        "[\<lparr>id_el = ''X'', version = 1, payload = ''remote''\<rparr>]"
        "\<lparr>id_el = ''X'', version = 1, payload = ''remote''\<rparr>"]
  by (auto simp: newMap_def)

section \<open>Versions under the merge\<close>

text \<open>
  C8, as stated, fails: with no local edit since the last sync the incoming copy is adopted
  whatever its version. Here \<open>current\<close> and \<open>lastSynced\<close> hold X at version 5 and the
  incoming snapshot carries X at version 3: X is in \<open>current\<close> and in the result, and
  its version in the result is 3.
\<close>

theorem mergeElements_version_regress_counterexample:
  "newMap [\<lparr>id_el = ''X'', version = 5, payload = ''local''\<rparr>] ''X''
     = Some \<lparr>id_el = ''X'', version = 5, payload = ''local''\<rparr> \<and>
   mergeElements [\<lparr>id_el = ''X'', version = 5, payload = ''local''\<rparr>]
                 [\<lparr>id_el = ''X'', version = 3, payload = ''remote''\<rparr>]
                 [\<lparr>id_el = ''X'', version = 5, payload = ''local''\<rparr>]
     = [\<lparr>id_el = ''X'', version = 3, payload = ''remote''\<rparr>] \<and>
   \<not> version \<lparr>id_el = ''X'', version = 5, payload = ''local''\<rparr>
       \<le> version \<lparr>id_el = ''X'', version = 3, payload = ''remote''\<rparr>"
  by (simp add: mergeElements_def newMap_def pushedFor_def)

text \<open>
  C8, amended. Let the ids of \<open>current\<close> be pairwise distinct and let \<open>e\<close> be an element
  of the merge result whose id \<open>current\<close> holds, as \<open>currentEl\<close>. If that id is absent from
  \<open>incoming\<close>, or \<open>lastSynced\<close> holds it at a version strictly below the one of
  \<open>currentEl\<close> (a local edit since the last sync), then the version of \<open>e\<close> is not below
  the version of \<open>currentEl\<close>.
\<close>

theorem mergeElements_version_kept:
  assumes "distinct (map id_el current)"
    and "e \<in> set (mergeElements current incoming lastSynced)"
    and "newMap current (id_el e) = Some currentEl"
    and "id_el e \<notin> id_el ` set incoming \<or>
         (\<exists>l. newMap lastSynced (id_el e) = Some l \<and> version l < version currentEl)"
  shows "version currentEl \<le> version e"
proof -
  let ?cm = "newMap current" and ?lm = "newMap lastSynced"
  let ?tail = "filter (\<lambda>c. newMap incoming (id_el c) = None \<and> ?lm (id_el c) = None) current"
  have ne: "lastSynced \<noteq> []"
  proof
    assume "lastSynced = []"
    then have "e \<in> set incoming" and "newMap lastSynced (id_el e) = None"
      using assms(2) by (simp_all add: mergeElements_def newMap_def)
    then show False
      using assms(4) by auto
  qed
  have res: "mergeElements current incoming lastSynced = map (pushedFor ?cm ?lm) incoming @ ?tail"
    using ne by (rule mergeElements_eq)
  from assms(2) res consider (head) "e \<in> pushedFor ?cm ?lm ` set incoming" | (tail) "e \<in> set ?tail"
    by auto
  then show ?thesis
  proof cases
    case head
    then obtain x where x: "x \<in> set incoming" and ex: "e = pushedFor ?cm ?lm x"
      by auto
    have idx: "id_el x = id_el e"
      using ex by (simp add: pushedFor_id)
    then have "id_el e \<in> id_el ` set incoming"
      using x by (metis imageI)
    then obtain l where l: "?lm (id_el x) = Some l" "version l < version currentEl"
      using assms(4) idx by auto
    have "pushedFor ?cm ?lm x = (if version x \<le> version currentEl then currentEl else x)"
      using assms(3) l idx by (simp add: pushedFor_local)
    then show ?thesis
      using ex by (simp split: if_splits)
  next
    case tail
    then have "e \<in> set current"
      by simp
    then have "newMap current (id_el e) = Some e"
      using assms(1) by (simp add: newMap_distinct)
    then show ?thesis
      using assms(3) by simp
  qed
qed

theorem mergeElements_version_kept_witness:
  "distinct (map id_el [\<lparr>id_el = ''X'', version = 5, payload = ''local''\<rparr>]) \<and>
   \<lparr>id_el = ''X'', version = 7, payload = ''remote''\<rparr>
     \<in> set (mergeElements [\<lparr>id_el = ''X'', version = 5, payload = ''local''\<rparr>]
                           [\<lparr>id_el = ''X'', version = 7, payload = ''remote''\<rparr>]
                           [\<lparr>id_el = ''X'', version = 4, payload = ''old''\<rparr>]) \<and>
   newMap [\<lparr>id_el = ''X'', version = 5, payload = ''local''\<rparr>] ''X''
     = Some \<lparr>id_el = ''X'', version = 5, payload = ''local''\<rparr> \<and>
   newMap [\<lparr>id_el = ''X'', version = 4, payload = ''old''\<rparr>] ''X''
     = Some \<lparr>id_el = ''X'', version = 4, payload = ''old''\<rparr> \<and>
   version \<lparr>id_el = ''X'', version = 5, payload = ''local''\<rparr>
     \<le> version \<lparr>id_el = ''X'', version = 7, payload = ''remote''\<rparr>"
  using mergeElements_version_kept
    [of "[\<lparr>id_el = ''X'', version = 5, payload = ''local''\<rparr>]"
        "\<lparr>id_el = ''X'', version = 7, payload = ''remote''\<rparr>"
        "[\<lparr>id_el = ''X'', version = 7, payload = ''remote''\<rparr>]"
        "[\<lparr>id_el = ''X'', version = 4, payload = ''old''\<rparr>]"
        "\<lparr>id_el = ''X'', version = 5, payload = ''local''\<rparr>"]
  by (simp add: mergeElements_def newMap_def pushedFor_def)

section \<open>Remote deletions and new local elements\<close>

text \<open>
  C9, as stated, fails on the first sync: with an empty \<open>lastSynced\<close> the function returns
  \<open>incoming\<close>, so a local element Z that is in neither \<open>incoming\<close> nor \<open>lastSynced\<close> is
  dropped.
\<close>

theorem mergeElements_first_sync_drops_counterexample:
  "\<lparr>id_el = ''Z'', version = 1, payload = ''local''\<rparr>
     \<in> set [\<lparr>id_el = ''Z'', version = 1, payload = ''local''\<rparr>] \<and>
   ''Z'' \<notin> id_el ` set ([] :: element list) \<and>
   \<lparr>id_el = ''Z'', version = 1, payload = ''local''\<rparr>
     \<notin> set (mergeElements [\<lparr>id_el = ''Z'', version = 1, payload = ''local''\<rparr>] [] [])"
  by (simp add: mergeElements_def)

text \<open>
  C9, amended: when \<open>lastSynced\<close> is not empty, an element of \<open>current\<close> whose id is absent
  from \<open>incoming\<close> is in the merge result if and only if its id is absent from
  \<open>lastSynced\<close>; when the id is in \<open>lastSynced\<close>, no element with that id is in the result.
\<close>

theorem mergeElements_deletion_rule:
  assumes "lastSynced \<noteq> []"
    and "e \<in> set current"
    and "id_el e \<notin> id_el ` set incoming"
  shows "(e \<in> set (mergeElements current incoming lastSynced)
            \<longleftrightarrow> id_el e \<notin> id_el ` set lastSynced) \<and>
         (id_el e \<in> id_el ` set (mergeElements current incoming lastSynced)
            \<longleftrightarrow> id_el e \<notin> id_el ` set lastSynced)"
proof -
  let ?cm = "newMap current" and ?lm = "newMap lastSynced"
  let ?res = "mergeElements current incoming lastSynced"
  have ids: "id_el ` set ?res =
      id_el ` set incoming \<union>
      id_el ` {c \<in> set current. id_el c \<notin> id_el ` set incoming \<and> id_el c \<notin> id_el ` set lastSynced}"
  proof -
    have "set (map id_el ?res) =
        set (map id_el incoming @
             map id_el (filter (\<lambda>c. id_el c \<notin> id_el ` set incoming \<and> id_el c \<notin> id_el ` set lastSynced)
                          current))"
      by (rule arg_cong [where f = set, OF mergeElements_ids [OF assms(1)]])
    then show ?thesis
      by (simp add: image_Un)
  qed
  have second: "id_el e \<in> id_el ` set ?res \<longleftrightarrow> id_el e \<notin> id_el ` set lastSynced"
    using assms(2,3) unfolding ids by (auto simp: image_iff)
  have "e \<in> set ?res \<longleftrightarrow> id_el e \<notin> id_el ` set lastSynced"
  proof
    assume "e \<in> set ?res"
    then show "id_el e \<notin> id_el ` set lastSynced"
      using second by blast
  next
    assume "id_el e \<notin> id_el ` set lastSynced"
    then show "e \<in> set ?res"
      using assms by (simp add: mergeElements_eq newMap_None)
  qed
  then show ?thesis
    using second by simp
qed

text \<open>
  The scenario of the specification: last-synced holds X and Y, the incoming snapshot
  holds X only, Y has no local edit; Y is not in the merge result.
\<close>

theorem mergeElements_deletion_rule_witness:
  "[\<lparr>id_el = ''X'', version = 1, payload = ''p''\<rparr>, \<lparr>id_el = ''Y'', version = 1, payload = ''q''\<rparr>] \<noteq> [] \<and>
   \<lparr>id_el = ''Y'', version = 1, payload = ''q''\<rparr>
     \<in> set [\<lparr>id_el = ''X'', version = 1, payload = ''p''\<rparr>, \<lparr>id_el = ''Y'', version = 1, payload = ''q''\<rparr>] \<and>
   ''Y'' \<notin> id_el ` set [\<lparr>id_el = ''X'', version = 1, payload = ''p''\<rparr>] \<and>
   ''Y'' \<notin> id_el ` set (mergeElements
      [\<lparr>id_el = ''X'', version = 1, payload = ''p''\<rparr>, \<lparr>id_el = ''Y'', version = 1, payload = ''q''\<rparr>]
      [\<lparr>id_el = ''X'', version = 1, payload = ''p''\<rparr>]
      [\<lparr>id_el = ''X'', version = 1, payload = ''p''\<rparr>, \<lparr>id_el = ''Y'', version = 1, payload = ''q''\<rparr>])"
  using mergeElements_deletion_rule
    [of "[\<lparr>id_el = ''X'', version = 1, payload = ''p''\<rparr>, \<lparr>id_el = ''Y'', version = 1, payload = ''q''\<rparr>]"
        "\<lparr>id_el = ''Y'', version = 1, payload = ''q''\<rparr>"
        "[\<lparr>id_el = ''X'', version = 1, payload = ''p''\<rparr>, \<lparr>id_el = ''Y'', version = 1, payload = ''q''\<rparr>]"
        "[\<lparr>id_el = ''X'', version = 1, payload = ''p''\<rparr>]"]
  by simp

section \<open>Shape of the merge result\<close>

lemma pushedFor_mem:
  "pushedFor (newMap current) lm x = x \<or> pushedFor (newMap current) lm x \<in> set current"
  using pushedFor_cases [of "newMap current" lm x] by (auto dest: newMap_Some)

text \<open>
  C10. When the ids of \<open>current\<close> and those of \<open>incoming\<close> are pairwise distinct, the ids
  of the merge result are pairwise distinct. The result has one element for each element
  of \<open>incoming\<close>, in the same order: that element, or the copy that \<open>current\<close> holds of
  the same id. They are followed by the kept new local elements in the order of
  \<open>current\<close> (none on the first sync). Every element of the result is an element of
  \<open>incoming\<close> or of \<open>current\<close>, so no other id appears.
\<close>

theorem mergeElements_structure:
  assumes "distinct (map id_el current)"
    and "distinct (map id_el incoming)"
  shows "distinct (map id_el (mergeElements current incoming lastSynced)) \<and>
         map id_el (take (length incoming) (mergeElements current incoming lastSynced))
           = map id_el incoming \<and>
         (\<forall>i < length incoming.
            mergeElements current incoming lastSynced ! i = incoming ! i \<or>
            mergeElements current incoming lastSynced ! i \<in> set current) \<and>
         drop (length incoming) (mergeElements current incoming lastSynced)
           = (if lastSynced = [] then []
              else filter (\<lambda>c. id_el c \<notin> id_el ` set incoming \<and> id_el c \<notin> id_el ` set lastSynced)
                     current) \<and>
         set (mergeElements current incoming lastSynced) \<subseteq> set incoming \<union> set current \<and>
         id_el ` set (mergeElements current incoming lastSynced)
           \<subseteq> id_el ` set incoming \<union> id_el ` set current"
proof (cases "lastSynced = []")
  case True
  then have "mergeElements current incoming lastSynced = incoming"
    by (simp add: mergeElements_def)
  then show ?thesis
    using assms(2) True by auto
next
  case False
  let ?cm = "newMap current" and ?lm = "newMap lastSynced"
  let ?res = "mergeElements current incoming lastSynced"
  let ?kept = "filter (\<lambda>c. id_el c \<notin> id_el ` set incoming \<and> id_el c \<notin> id_el ` set lastSynced)
                 current"
  have res: "?res = map (pushedFor ?cm ?lm) incoming @ ?kept"
    using False by (simp add: mergeElements_eq newMap_None)
  have ids: "map id_el ?res = map id_el incoming @ map id_el ?kept"
    using False by (rule mergeElements_ids)
  have "distinct (map id_el ?kept)"
    using assms(1) by (rule distinct_map_filter)
  moreover have "set (map id_el incoming) \<inter> set (map id_el ?kept) = {}"
    by (auto simp: image_iff)
  ultimately have d: "distinct (map id_el ?res)"
    using assms(2) by (simp only: ids distinct_append)
  have t: "map id_el (take (length incoming) ?res) = map id_el incoming"
    by (simp add: res pushedFor_id)
  have k: "drop (length incoming) ?res = ?kept"
    by (simp add: res)
  have p: "\<forall>i < length incoming. ?res ! i = incoming ! i \<or> ?res ! i \<in> set current"
    using pushedFor_mem [of current ?lm] by (simp add: res nth_append)
  have m: "set ?res \<subseteq> set incoming \<union> set current"
  proof
    fix e
    assume "e \<in> set ?res"
    then consider x where "x \<in> set incoming" "e = pushedFor ?cm ?lm x" | "e \<in> set ?kept"
      by (auto simp: res)
    then show "e \<in> set incoming \<union> set current"
    proof cases
      case 1
      then show ?thesis
        using pushedFor_mem [of current ?lm x] by auto
    next
      case 2
      then show ?thesis
        by simp
    qed
  qed
  then have "id_el ` set ?res \<subseteq> id_el ` set incoming \<union> id_el ` set current"
    by blast
  then show ?thesis
    using False d t k m p by simp
qed

theorem mergeElements_structure_witness:
  "distinct (map id_el [\<lparr>id_el = ''X'', version = 2, payload = ''local''\<rparr>,
                        \<lparr>id_el = ''Z'', version = 1, payload = ''new''\<rparr>]) \<and>
   distinct (map id_el [\<lparr>id_el = ''Y'', version = 1, payload = ''remote''\<rparr>,
                        \<lparr>id_el = ''X'', version = 1, payload = ''remote''\<rparr>]) \<and>
   distinct (map id_el (mergeElements
      [\<lparr>id_el = ''X'', version = 2, payload = ''local''\<rparr>, \<lparr>id_el = ''Z'', version = 1, payload = ''new''\<rparr>]
      [\<lparr>id_el = ''Y'', version = 1, payload = ''remote''\<rparr>, \<lparr>id_el = ''X'', version = 1, payload = ''remote''\<rparr>]
      [\<lparr>id_el = ''X'', version = 1, payload = ''remote''\<rparr>])) \<and>
   drop 2 (mergeElements
      [\<lparr>id_el = ''X'', version = 2, payload = ''local''\<rparr>, \<lparr>id_el = ''Z'', version = 1, payload = ''new''\<rparr>]
      [\<lparr>id_el = ''Y'', version = 1, payload = ''remote''\<rparr>, \<lparr>id_el = ''X'', version = 1, payload = ''remote''\<rparr>]
      [\<lparr>id_el = ''X'', version = 1, payload = ''remote''\<rparr>])
     = [\<lparr>id_el = ''Z'', version = 1, payload = ''new''\<rparr>]"
  using mergeElements_structure
    [of "[\<lparr>id_el = ''X'', version = 2, payload = ''local''\<rparr>, \<lparr>id_el = ''Z'', version = 1, payload = ''new''\<rparr>]"
        "[\<lparr>id_el = ''Y'', version = 1, payload = ''remote''\<rparr>, \<lparr>id_el = ''X'', version = 1, payload = ''remote''\<rparr>]"
        "[\<lparr>id_el = ''X'', version = 1, payload = ''remote''\<rparr>]"]
  by (simp add: numeral_2_eq_2)

section \<open>The last-synced snapshot and a failed send\<close>

lemma sendUpdateTimeout_lastSynced:
  assumes "subscriptionSocketID c = Some sid" and "sid \<noteq> []"
  shows "lastSyncedElements (fst (sendUpdateTimeout outcome (sendUpdate elements c))) = elements"
  using assms by (simp add: sendUpdateTimeout_def sendUpdate_def)

lemma sendUpdateEnhancedTimeout_rejected_lastSynced:
  "lastSyncedElements (fst (sendUpdateEnhancedTimeout Rejected (sendUpdateEnhanced elements c)))
     = lastSyncedElements c"
  by (simp add: sendUpdateEnhancedTimeout_def sendUpdateEnhanced_def Let_def split: option.splits)

text \<open>
  C6. In \<open>Project.tsx\<close> the claim fails: last-synced holds X at version 1, an edit brings X
  to version 2, the timer fires and the mutation is rejected; last-synced is then the
  elements whose send failed. The enhanced component, on the same input, keeps the
  previous value. With the overwritten last-synced, a later incoming snapshot that still
  carries X at version 1 replaces the unsent version 2 in the merge.
\<close>

theorem sendUpdateTimeout_rejected_overwrites_lastSynced:
  "lastSyncedElements
     (fst (sendUpdateTimeout Rejected
        (sendUpdate [\<lparr>id_el = ''X'', version = 2, payload = ''local''\<rparr>]
           \<lparr>lastSyncedElements = [\<lparr>id_el = ''X'', version = 1, payload = ''remote''\<rparr>],
            pendingUpdate = None,
            subscriptionSocketID = Some ''12345678''\<rparr>)))
     = [\<lparr>id_el = ''X'', version = 2, payload = ''local''\<rparr>] \<and>
   lastSyncedElements
     (fst (sendUpdateEnhancedTimeout Rejected
        (sendUpdateEnhanced [\<lparr>id_el = ''X'', version = 2, payload = ''local''\<rparr>]
           \<lparr>lastSyncedElements = [\<lparr>id_el = ''X'', version = 1, payload = ''remote''\<rparr>],
            pendingUpdate = None,
            subscriptionSocketID = Some ''12345678'',
            connectionStatus = Connected,
            retryCount = 0\<rparr>)))
     = [\<lparr>id_el = ''X'', version = 1, payload = ''remote''\<rparr>] \<and>
   mergeElements [\<lparr>id_el = ''X'', version = 2, payload = ''local''\<rparr>]
     [\<lparr>id_el = ''X'', version = 1, payload = ''remote''\<rparr>]
     (lastSyncedElements
        (fst (sendUpdateTimeout Rejected
           (sendUpdate [\<lparr>id_el = ''X'', version = 2, payload = ''local''\<rparr>]
              \<lparr>lastSyncedElements = [\<lparr>id_el = ''X'', version = 1, payload = ''remote''\<rparr>],
               pendingUpdate = None,
               subscriptionSocketID = Some ''12345678''\<rparr>))))
     = [\<lparr>id_el = ''X'', version = 1, payload = ''remote''\<rparr>]"
  by (simp add: sendUpdateTimeout_def sendUpdate_def sendUpdateEnhancedTimeout_def
        sendUpdateEnhanced_def MAX_RETRIES_def mergeElements_def newMap_def pushedFor_def)

section \<open>Retries of a failed send\<close>

lemma failedSend_step:
  assumes "subscriptionSocketID c = Some sid" and "sid \<noteq> []"
  shows "sendUpdateEnhancedTimeout Rejected (sendUpdateEnhanced elements c) =
          (if retryCount c < MAX_RETRIES
           then (c\<lparr>connectionStatus := Disconnected, retryCount := Suc (retryCount c),
                   pendingUpdate := None\<rparr>,
                 [Mutate elements sid, ConsoleError,
                  SetTimeout (1000 * Suc (retryCount c)) elements])
           else (c\<lparr>connectionStatus := Disconnected, pendingUpdate := None\<rparr>,
                 [Mutate elements sid, ConsoleError]))"
  using assms by (simp add: sendUpdateEnhancedTimeout_def sendUpdateEnhanced_def Let_def)

lemma retries_failure [simp]:
  "retries (Mutate els sid # ConsoleError # effs) = retries effs"
  by simp

lemma resolvedSend_step:
  assumes "subscriptionSocketID c = Some sid" and "sid \<noteq> []"
  shows "sendUpdateEnhancedTimeout Resolved (sendUpdateEnhanced elements c) =
          (c\<lparr>lastSyncedElements := elements, connectionStatus := Connected, retryCount := 0,
              pendingUpdate := None\<rparr>,
           [Mutate elements sid])"
  using assms by (simp add: sendUpdateEnhancedTimeout_def sendUpdateEnhanced_def Let_def)

lemma runEvents_Nil [simp]: "runEvents [] c = (c, [])"
  by (simp add: runEvents_def)

lemma runEvents_snoc:
  "runEvents (evs @ [ev]) c =
     (case runEvents evs c of
        (c1, effs) \<Rightarrow> (case handle ev c1 of (c2, effs') \<Rightarrow> (c2, effs @ effs')))"
  by (simp add: runEvents_def split: prod.splits)

lemma fst_runEvents_snoc:
  "fst (runEvents (evs @ [ev]) c) = fst (handle ev (fst (runEvents evs c)))"
  by (simp add: runEvents_snoc split: prod.splits)

lemma failuresSinceReset_Nil [simp]: "failuresSinceReset [] = 0"
  by (simp add: failuresSinceReset_def)

lemma failuresSinceReset_snoc:
  "failuresSinceReset (evs @ [ev]) =
     (if resets ev then 0
      else (if isFailure ev then Suc (failuresSinceReset evs) else failuresSinceReset evs))"
  by (simp add: failuresSinceReset_def)

text \<open>
  One event, from a state with a socket id: the socket id stays present, and the retry
  count follows the failures since the last reset, up to \<open>MAX_RETRIES\<close>.
\<close>

lemma handle_count:
  assumes "subscriptionSocketID c = Some sid" and "sid \<noteq> []"
    and "socketPresent ev"
    and "retryCount c = min k MAX_RETRIES"
  shows "(\<exists>sid'. subscriptionSocketID (fst (handle ev c)) = Some sid' \<and> sid' \<noteq> []) \<and>
         retryCount (fst (handle ev c)) =
           min (if resets ev then 0 else if isFailure ev then Suc k else k) MAX_RETRIES"
proof (cases ev)
  case (SendFails els)
  then show ?thesis
    using assms by (simp add: failedSend_step [OF assms(1,2)] MAX_RETRIES_def)
next
  case (SendSucceeds els)
  then show ?thesis
    using assms by (simp add: resolvedSend_step [OF assms(1,2)])
next
  case (Subscription e l d incoming)
  then show ?thesis
    using assms(3,4)
    by (cases d; cases incoming) (simp_all add: subscriptionEffect_def Let_def)
qed

lemma runEvents_count:
  assumes "subscriptionSocketID c = Some sid" and "sid \<noteq> []"
    and "retryCount c = 0"
    and "list_all socketPresent evs"
  shows "(\<exists>sid'. subscriptionSocketID (fst (runEvents evs c)) = Some sid' \<and> sid' \<noteq> []) \<and>
         retryCount (fst (runEvents evs c)) = min (failuresSinceReset evs) MAX_RETRIES"
  using assms(4)
proof (induction evs rule: rev_induct)
  case Nil
  then show ?case
    using assms(1-3) by simp
next
  case (snoc ev evs)
  then have ok: "socketPresent ev" and ih:
      "(\<exists>sid'. subscriptionSocketID (fst (runEvents evs c)) = Some sid' \<and> sid' \<noteq> []) \<and>
       retryCount (fst (runEvents evs c)) = min (failuresSinceReset evs) MAX_RETRIES"
    by simp_all
  then obtain sid' where sid': "subscriptionSocketID (fst (runEvents evs c)) = Some sid'" "sid' \<noteq> []"
    by blast
  from handle_count [OF sid' ok, of "failuresSinceReset evs"] ih show ?case
    by (simp add: fst_runEvents_snoc failuresSinceReset_snoc)
qed

text \<open>
  C7, as stated, fails. In the enhanced component, the one that retries, the first
  failure, with no retry counted yet, sets the connection status to disconnected at once
  and schedules the first retry: the status does not wait for the retries to be
  exhausted. In \<open>Project.tsx\<close> a rejected mutation is logged, and no retry is scheduled.
  And the retries are not bounded, nor do their delays grow, when subscription messages
  arrive between the failures: each message resets the count, so four failures with a
  message before each but the first schedule four retries, each 1000 ms later.
\<close>

theorem sendUpdateEnhanced_first_failure_counterexample:
  "sendUpdateEnhancedTimeout Rejected
     (sendUpdateEnhanced [\<lparr>id_el = ''X'', version = 2, payload = ''local''\<rparr>]
        \<lparr>lastSyncedElements = [], pendingUpdate = None,
         subscriptionSocketID = Some ''12345678'',
         connectionStatus = Connected, retryCount = 0\<rparr>)
   = (\<lparr>lastSyncedElements = [], pendingUpdate = None,
       subscriptionSocketID = Some ''12345678'',
       connectionStatus = Disconnected, retryCount = 1\<rparr>,
      [Mutate [\<lparr>id_el = ''X'', version = 2, payload = ''local''\<rparr>] ''12345678'',
       ConsoleError,
       SetTimeout 1000 [\<lparr>id_el = ''X'', version = 2, payload = ''local''\<rparr>]]) \<and>
   (1::nat) < MAX_RETRIES \<and>
   snd (sendUpdateTimeout Rejected
     (sendUpdate [\<lparr>id_el = ''X'', version = 2, payload = ''local''\<rparr>]
        \<lparr>lastSyncedElements = [], pendingUpdate = None,
         subscriptionSocketID = Some ''12345678''\<rparr>))
   = [Mutate [\<lparr>id_el = ''X'', version = 2, payload = ''local''\<rparr>] ''12345678'', ConsoleError] \<and>
   retries (snd (runEvents
     [SendFails [\<lparr>id_el = ''X'', version = 2, payload = ''local''\<rparr>],
      Subscription False False (Some ''12345678'') None,
      SendFails [\<lparr>id_el = ''X'', version = 2, payload = ''local''\<rparr>],
      Subscription False False (Some ''12345678'') None,
      SendFails [\<lparr>id_el = ''X'', version = 2, payload = ''local''\<rparr>],
      Subscription False False (Some ''12345678'') None,
      SendFails [\<lparr>id_el = ''X'', version = 2, payload = ''local''\<rparr>]]
     \<lparr>lastSyncedElements = [], pendingUpdate = None,
      subscriptionSocketID = Some ''12345678'',
      connectionStatus = Connected, retryCount = 0\<rparr>))
   = [(1000, [\<lparr>id_el = ''X'', version = 2, payload = ''local''\<rparr>]),
      (1000, [\<lparr>id_el = ''X'', version = 2, payload = ''local''\<rparr>]),
      (1000, [\<lparr>id_el = ''X'', version = 2, payload = ''local''\<rparr>]),
      (1000, [\<lparr>id_el = ''X'', version = 2, payload = ''local''\<rparr>])]"
  by (simp add: sendUpdateEnhancedTimeout_def sendUpdateEnhanced_def MAX_RETRIES_def
        getThrottleDelay_def sendUpdateTimeout_def sendUpdate_def runEvents_def
        subscriptionEffect_def Let_def)

text \<open>
  C7, amended, for the enhanced component. Take any sequence of failed sends, successful
  sends and changes of the subscription hook (the hook keeping a socket id), from a state
  with no retry counted, and let \<open>k\<close> be the number of failed sends since the last
  successful send or subscription message, each of which resets the count. A send that
  fails next sets the connection status to disconnected at once; it schedules a retry of
  the same elements, \<open>1000 * (k + 1)\<close> ms later, exactly when \<open>k < 3\<close>; and it leaves
  last-synced as it was. So retries are bounded, by 3 and with delays of 1000, 2000 and
  3000 ms, among failures with no successful send and no subscription message between
  them. Nothing is discarded: the next throttled cycle, started by a further edit or by a
  retry timer, issues the mutation for its elements whatever the retry count and the
  outcome.
\<close>

theorem sendFails_retry_schedule:
  assumes "subscriptionSocketID c = Some sid" and "sid \<noteq> []"
    and "retryCount c = 0"
    and "list_all socketPresent evs"
  shows "connectionStatus (fst (handle (SendFails elements) (fst (runEvents evs c)))) = Disconnected \<and>
         retries (snd (handle (SendFails elements) (fst (runEvents evs c)))) =
           (if failuresSinceReset evs < MAX_RETRIES
            then [(1000 * (failuresSinceReset evs + 1), elements)] else []) \<and>
         lastSyncedElements (fst (handle (SendFails elements) (fst (runEvents evs c))))
           = lastSyncedElements (fst (runEvents evs c)) \<and>
         (\<exists>sid'. hd (snd (handle (SendFails elements') (fst (runEvents evs c))))
                   = Mutate elements' sid' \<and>
                 hd (snd (handle (SendSucceeds elements') (fst (runEvents evs c))))
                   = Mutate elements' sid')"
proof -
  let ?c = "fst (runEvents evs c)"
  from runEvents_count [OF assms]
  obtain sid' where sid': "subscriptionSocketID ?c = Some sid'" "sid' \<noteq> []"
    and count: "retryCount ?c = min (failuresSinceReset evs) MAX_RETRIES"
    by blast
  have lt: "retryCount ?c < MAX_RETRIES \<longleftrightarrow> failuresSinceReset evs < MAX_RETRIES"
    using count by auto
  have eq: "failuresSinceReset evs < MAX_RETRIES \<Longrightarrow> retryCount ?c = failuresSinceReset evs"
    using count by simp
  have fail: "\<And>els. handle (SendFails els) ?c =
      (if failuresSinceReset evs < MAX_RETRIES
       then (?c\<lparr>connectionStatus := Disconnected, retryCount := Suc (retryCount ?c),
                  pendingUpdate := None\<rparr>,
             [Mutate els sid', ConsoleError,
              SetTimeout (1000 * Suc (failuresSinceReset evs)) els])
       else (?c\<lparr>connectionStatus := Disconnected, pendingUpdate := None\<rparr>,
             [Mutate els sid', ConsoleError]))"
    using lt eq by (simp add: failedSend_step [OF sid'])
  have ok: "\<And>els. handle (SendSucceeds els) ?c =
      (?c\<lparr>lastSyncedElements := els, connectionStatus := Connected, retryCount := 0,
           pendingUpdate := None\<rparr>,
       [Mutate els sid'])"
    by (simp add: resolvedSend_step [OF sid'])
  have "hd (snd (handle (SendFails elements') ?c)) = Mutate elements' sid' \<and>
        hd (snd (handle (SendSucceeds elements') ?c)) = Mutate elements' sid'"
    by (simp add: fail ok del: handle.simps)
  then show ?thesis
    by (auto simp add: fail simp del: handle.simps)
qed

text \<open>
  Two sends fail in a row after a subscription message: the third failure schedules the
  third retry, 3000 ms later, and a further edit's mutation is issued all the same.
\<close>

theorem sendFails_retry_schedule_witness:
  "subscriptionSocketID
     \<lparr>lastSyncedElements = [], pendingUpdate = None, subscriptionSocketID = Some ''12345678'',
      connectionStatus = Connected, retryCount = 0\<rparr> = Some ''12345678'' \<and>
   ''12345678'' \<noteq> [] \<and>
   list_all socketPresent
     [SendFails [\<lparr>id_el = ''X'', version = 2, payload = ''local''\<rparr>],
      Subscription False False (Some ''12345678'') None,
      SendFails [\<lparr>id_el = ''X'', version = 2, payload = ''local''\<rparr>],
      SendFails [\<lparr>id_el = ''X'', version = 2, payload = ''local''\<rparr>]] \<and>
   failuresSinceReset
     [SendFails [\<lparr>id_el = ''X'', version = 2, payload = ''local''\<rparr>],
      Subscription False False (Some ''12345678'') None,
      SendFails [\<lparr>id_el = ''X'', version = 2, payload = ''local''\<rparr>],
      SendFails [\<lparr>id_el = ''X'', version = 2, payload = ''local''\<rparr>]] = 2 \<and>
   retries (snd (handle (SendFails [\<lparr>id_el = ''X'', version = 2, payload = ''local''\<rparr>])
     (fst (runEvents
        [SendFails [\<lparr>id_el = ''X'', version = 2, payload = ''local''\<rparr>],
         Subscription False False (Some ''12345678'') None,
         SendFails [\<lparr>id_el = ''X'', version = 2, payload = ''local''\<rparr>],
         SendFails [\<lparr>id_el = ''X'', version = 2, payload = ''local''\<rparr>]]
        \<lparr>lastSyncedElements = [], pendingUpdate = None, subscriptionSocketID = Some ''12345678'',
         connectionStatus = Connected, retryCount = 0\<rparr>))))
     = [(3000, [\<lparr>id_el = ''X'', version = 2, payload = ''local''\<rparr>])] \<and>
   connectionStatus (fst (handle (SendFails [\<lparr>id_el = ''X'', version = 2, payload = ''local''\<rparr>])
     (fst (runEvents
        [SendFails [\<lparr>id_el = ''X'', version = 2, payload = ''local''\<rparr>],
         Subscription False False (Some ''12345678'') None,
         SendFails [\<lparr>id_el = ''X'', version = 2, payload = ''local''\<rparr>],
         SendFails [\<lparr>id_el = ''X'', version = 2, payload = ''local''\<rparr>]]
        \<lparr>lastSyncedElements = [], pendingUpdate = None, subscriptionSocketID = Some ''12345678'',
         connectionStatus = Connected, retryCount = 0\<rparr>)))) = Disconnected"
  using sendFails_retry_schedule
    [of "\<lparr>lastSyncedElements = [], pendingUpdate = None, subscriptionSocketID = Some ''12345678'',
          connectionStatus = Connected, retryCount = 0\<rparr>"
        "''12345678''"
        "[SendFails [\<lparr>id_el = ''X'', version = 2, payload = ''local''\<rparr>],
          Subscription False False (Some ''12345678'') None,
          SendFails [\<lparr>id_el = ''X'', version = 2, payload = ''local''\<rparr>],
          SendFails [\<lparr>id_el = ''X'', version = 2, payload = ''local''\<rparr>]]"
        "[\<lparr>id_el = ''X'', version = 2, payload = ''local''\<rparr>]"]
  by (simp add: MAX_RETRIES_def failuresSinceReset_def)

section \<open>The broadcast loop\<close>

lemma broadcastLoop_append:
  "broadcastLoop project fromID (xs @ ys) st =
     (case broadcastLoop project fromID xs st of
        Inl p \<Rightarrow> Inl p
      | Inr st1 \<Rightarrow> broadcastLoop project fromID ys st1)"
  by (induction xs arbitrary: st) (simp_all add: Let_def)

text \<open>One turn of the loop, read off a run that returned.\<close>

lemma broadcastLoop_Cons:
  assumes "broadcastLoop project fromID (s # rest) st = Inr st'"
  shows "\<exists>st1. broadcastLoop project fromID rest st1 = Inr st' \<and>
       (sockedID s = fromID \<longrightarrow> st1 = st) \<and>
       (sockedID s \<noteq> fromID \<longrightarrow>
          \<not> ch_closed (chans st (channel s)) \<and>
          heap st1 = (heap st)(project := (heap st project)\<lparr>SocketID := sockedID s\<rparr>) \<and>
          projectSubscribers st1 = projectSubscribers st \<and> nextChan st1 = nextChan st \<and>
          (length (ch_buf (chans st (channel s))) < ch_cap (chans st (channel s)) \<longrightarrow>
             chans st1 = (chans st)(channel s :=
               (chans st (channel s))\<lparr>ch_buf := ch_buf (chans st (channel s)) @ [project]\<rparr>)) \<and>
          (\<not> length (ch_buf (chans st (channel s))) < ch_cap (chans st (channel s)) \<longrightarrow>
             chans st1 = chans st))"
proof (cases "sockedID s = fromID")
  case True
  then show ?thesis
    using assms by simp
next
  case False
  let ?st1 = "st\<lparr>heap := (heap st)(project := (heap st project)\<lparr>SocketID := sockedID s\<rparr>)\<rparr>"
  let ?st2 = "?st1\<lparr>chans := (chans st)(channel s :=
             (chans st (channel s))\<lparr>ch_buf := ch_buf (chans st (channel s)) @ [project]\<rparr>)\<rparr>"
  have open_s: "\<not> ch_closed (chans st (channel s))"
    using assms False by (auto simp: Let_def split: if_splits)
  show ?thesis
  proof (cases "length (ch_buf (chans st (channel s))) < ch_cap (chans st (channel s))")
    case True
    then have "broadcastLoop project fromID rest ?st2 = Inr st'"
      using assms False open_s by (simp add: Let_def)
    then show ?thesis
      using False True open_s by (intro exI [of _ ?st2]) simp
  next
    case full: False
    then have "broadcastLoop project fromID rest ?st1 = Inr st'"
      using assms False open_s by (simp add: Let_def)
    then show ?thesis
      using False full open_s by (intro exI [of _ ?st1]) simp
  qed
qed

lemma broadcastLoop_frame:
  "broadcastLoop project fromID subscribers st = Inr st' \<Longrightarrow>
   projectSubscribers st' = projectSubscribers st \<and> nextChan st' = nextChan st \<and>
   ch_closed (chans st' c) = ch_closed (chans st c) \<and>
   ch_cap (chans st' c) = ch_cap (chans st c)"
proof (induction subscribers arbitrary: st)
  case Nil
  then show ?case by simp
next
  case (Cons s rest)
  from broadcastLoop_Cons [OF Cons.prems(1)]
  obtain st1 where run: "broadcastLoop project fromID rest st1 = Inr st'"
    and step:
      "(sockedID s = fromID \<longrightarrow> st1 = st) \<and>
       (sockedID s \<noteq> fromID \<longrightarrow>
          \<not> ch_closed (chans st (channel s)) \<and>
          heap st1 = (heap st)(project := (heap st project)\<lparr>SocketID := sockedID s\<rparr>) \<and>
          projectSubscribers st1 = projectSubscribers st \<and> nextChan st1 = nextChan st \<and>
          (length (ch_buf (chans st (channel s))) < ch_cap (chans st (channel s)) \<longrightarrow>
             chans st1 = (chans st)(channel s :=
               (chans st (channel s))\<lparr>ch_buf := ch_buf (chans st (channel s)) @ [project]\<rparr>)) \<and>
          (\<not> length (ch_buf (chans st (channel s))) < ch_cap (chans st (channel s)) \<longrightarrow>
             chans st1 = chans st))"
    by blast
  have same: "projectSubscribers st1 = projectSubscribers st \<and> nextChan st1 = nextChan st \<and>
       ch_closed (chans st1 c) = ch_closed (chans st c) \<and>
       ch_cap (chans st1 c) = ch_cap (chans st c)"
    using step
    by (cases "sockedID s = fromID";
        cases "length (ch_buf (chans st (channel s))) < ch_cap (chans st (channel s))")
       auto
  show ?case
    using Cons.IH [OF run] same by simp
qed

lemma broadcastLoop_returns:
  "\<forall>s \<in> set subscribers. \<not> ch_closed (chans st (channel s)) \<Longrightarrow>
   \<exists>st'. broadcastLoop project fromID subscribers st = Inr st'"
proof (induction subscribers arbitrary: st)
  case Nil
  then show ?case by simp
next
  case (Cons s rest)
  then show ?case
    by (simp add: Let_def)
qed

text \<open>A channel that no subscriber other than the origin holds is left as it was.\<close>

lemma broadcastLoop_untouched:
  "broadcastLoop project fromID subscribers st = Inr st' \<Longrightarrow>
   \<forall>s \<in> set subscribers. channel s = c \<longrightarrow> sockedID s = fromID \<Longrightarrow>
   chans st' c = chans st c"
proof (induction subscribers arbitrary: st)
  case Nil
  then show ?case by simp
next
  case (Cons s rest)
  from broadcastLoop_Cons [OF Cons.prems(1)]
  obtain st1 where run: "broadcastLoop project fromID rest st1 = Inr st'"
    and step:
      "(sockedID s = fromID \<longrightarrow> st1 = st) \<and>
       (sockedID s \<noteq> fromID \<longrightarrow>
          \<not> ch_closed (chans st (channel s)) \<and>
          heap st1 = (heap st)(project := (heap st project)\<lparr>SocketID := sockedID s\<rparr>) \<and>
          projectSubscribers st1 = projectSubscribers st \<and> nextChan st1 = nextChan st \<and>
          (length (ch_buf (chans st (channel s))) < ch_cap (chans st (channel s)) \<longrightarrow>
             chans st1 = (chans st)(channel s :=
               (chans st (channel s))\<lparr>ch_buf := ch_buf (chans st (channel s)) @ [project]\<rparr>)) \<and>
          (\<not> length (ch_buf (chans st (channel s))) < ch_cap (chans st (channel s)) \<longrightarrow>
             chans st1 = chans st))"
    by blast
  have same: "chans st1 c = chans st c"
    using step Cons.prems(2)
    by (cases "sockedID s = fromID";
        cases "length (ch_buf (chans st (channel s))) < ch_cap (chans st (channel s))")
       auto
  show ?case
    using Cons.IH [OF run] same Cons.prems(2) by simp
qed

text \<open>A channel with no room is left as it was, whoever holds it.\<close>

lemma broadcastLoop_full:
  "broadcastLoop project fromID subscribers st = Inr st' \<Longrightarrow>
   \<not> length (ch_buf (chans st c)) < ch_cap (chans st c) \<Longrightarrow>
   chans st' c = chans st c"
proof (induction subscribers arbitrary: st)
  case Nil
  then show ?case by simp
next
  case (Cons s rest)
  from broadcastLoop_Cons [OF Cons.prems(1)]
  obtain st1 where run: "broadcastLoop project fromID rest st1 = Inr st'"
    and step:
      "(sockedID s = fromID \<longrightarrow> st1 = st) \<and>
       (sockedID s \<noteq> fromID \<longrightarrow>
          \<not> ch_closed (chans st (channel s)) \<and>
          heap st1 = (heap st)(project := (heap st project)\<lparr>SocketID := sockedID s\<rparr>) \<and>
          projectSubscribers st1 = projectSubscribers st \<and> nextChan st1 = nextChan st \<and>
          (length (ch_buf (chans st (channel s))) < ch_cap (chans st (channel s)) \<longrightarrow>
             chans st1 = (chans st)(channel s :=
               (chans st (channel s))\<lparr>ch_buf := ch_buf (chans st (channel s)) @ [project]\<rparr>)) \<and>
          (\<not> length (ch_buf (chans st (channel s))) < ch_cap (chans st (channel s)) \<longrightarrow>
             chans st1 = chans st))"
    by blast
  have same: "chans st1 c = chans st c"
    using step Cons.prems(2)
    by (cases "sockedID s = fromID";
        cases "length (ch_buf (chans st (channel s))) < ch_cap (chans st (channel s))")
       auto
  show ?case
    using Cons.IH [OF run] same Cons.prems(2) by simp
qed

text \<open>With pairwise distinct channels, a subscriber with room gets the pointer appended.\<close>

lemma broadcastLoop_delivers:
  "broadcastLoop project fromID subscribers st = Inr st' \<Longrightarrow>
   distinct (map channel subscribers) \<Longrightarrow> s \<in> set subscribers \<Longrightarrow>
   sockedID s \<noteq> fromID \<Longrightarrow>
   length (ch_buf (chans st (channel s))) < ch_cap (chans st (channel s)) \<Longrightarrow>
   chans st' (channel s) =
     (chans st (channel s))\<lparr>ch_buf := ch_buf (chans st (channel s)) @ [project]\<rparr>"
proof (induction subscribers arbitrary: st)
  case Nil
  then show ?case by simp
next
  case (Cons x rest)
  show ?case
  proof (cases "s = x")
    case True
    let ?st1 = "st\<lparr>heap := (heap st)(project := (heap st project)\<lparr>SocketID := sockedID x\<rparr>)\<rparr>"
    let ?st2 = "?st1\<lparr>chans := (chans ?st1)
                  (channel x := (chans ?st1 (channel x))
                     \<lparr>ch_buf := ch_buf (chans ?st1 (channel x)) @ [project]\<rparr>)\<rparr>"
    have run: "broadcastLoop project fromID rest ?st2 = Inr st'"
      using Cons.prems(1,4,5) True by (simp add: Let_def split: if_splits)
    have "\<forall>y \<in> set rest. channel y = channel x \<longrightarrow> sockedID y = fromID"
      using Cons.prems(2) by (auto simp: image_iff)
    then have "chans st' (channel x) = chans ?st2 (channel x)"
      using run by (rule broadcastLoop_untouched [rotated])
    then show ?thesis
      using True by simp
  next
    case False
    then have mem: "s \<in> set rest" and ne: "channel x \<noteq> channel s"
      using Cons.prems(2,3) by auto
    have d: "distinct (map channel rest)"
      using Cons.prems(2) by simp
    from Cons.prems(1) consider
        (skip) "broadcastLoop project fromID rest st = Inr st'"
      | (full) st1 where "broadcastLoop project fromID rest st1 = Inr st'"
          "chans st1 = chans st"
      | (sent) st2 where "broadcastLoop project fromID rest st2 = Inr st'"
          "chans st2 (channel s) = chans st (channel s)"
      using ne by (auto simp: Let_def split: if_splits)
    then show ?thesis
    proof cases
      case skip
      then show ?thesis
        using Cons.IH [of st] d mem Cons.prems(4,5) by simp
    next
      case full
      then show ?thesis
        using Cons.IH [of st1] d mem Cons.prems(4,5) by simp
    next
      case sent
      then show ?thesis
        using Cons.IH [of st2] d mem Cons.prems(4,5) by simp
    qed
  qed
qed

text \<open>
  The record is one object: after the loop its socket id is the token of the last
  subscriber that is not the origin, if there is one.
\<close>

lemma broadcastLoop_heap:
  "broadcastLoop project fromID subscribers st = Inr st' \<Longrightarrow>
   heap st' =
     (case filter (\<lambda>s. sockedID s \<noteq> fromID) subscribers of
        [] \<Rightarrow> heap st
      | x # xs \<Rightarrow> (heap st)(project := (heap st project)\<lparr>SocketID := sockedID (last (x # xs))\<rparr>))"
proof (induction subscribers arbitrary: st)
  case Nil
  then show ?case by simp
next
  case (Cons s rest)
  show ?case
  proof (cases "sockedID s = fromID")
    case True
    then show ?thesis
      using Cons.prems Cons.IH [of st] by simp
  next
    case False
    let ?st1 = "st\<lparr>heap := (heap st)(project := (heap st project)\<lparr>SocketID := sockedID s\<rparr>)\<rparr>"
    from broadcastLoop_Cons [OF Cons.prems] False
    obtain st2 where run: "broadcastLoop project fromID rest st2 = Inr st'"
      and h: "heap st2 = heap ?st1"
      by auto
    show ?thesis
      using Cons.IH [OF run] h False by (auto split: list.splits)
  qed
qed

section \<open>The registry under sequences of operations\<close>

lemma unsubscribeLoop_None:
  "unsubscribeLoop socketID subscribers k = None \<longleftrightarrow> socketID \<notin> sockedID ` set subscribers"
  by (induction subscribers arbitrary: k) auto

lemma unsubscribeLoop_Some:
  "unsubscribeLoop socketID subscribers k = Some (i, s) \<Longrightarrow>
   k \<le> i \<and> i - k < length subscribers \<and> subscribers ! (i - k) = s \<and> sockedID s = socketID"
proof (induction subscribers arbitrary: k)
  case Nil
  then show ?case by simp
next
  case (Cons x rest)
  show ?case
  proof (cases "sockedID x = socketID")
    case True
    then show ?thesis
      using Cons.prems by simp
  next
    case False
    then have "unsubscribeLoop socketID rest (Suc k) = Some (i, s)"
      using Cons.prems by simp
    from Cons.IH [OF this]
    have ih: "Suc k \<le> i" "i - Suc k < length rest" "rest ! (i - Suc k) = s" "sockedID s = socketID"
      by simp_all
    have "i - k = Suc (i - Suc k)"
      using ih(1) by simp
    then show ?thesis
      using ih by simp
  qed
qed

lemma wellFormed_NewResolver: "wellFormed NewResolver"
  by (simp add: wellFormed_def NewResolver_def)

lemma wellFormed_index:
  assumes "wellFormed st"
  shows "distinct (map channel (index (projectSubscribers st) d))"
    and "\<forall>s \<in> set (index (projectSubscribers st) d).
           channel s < nextChan st \<and> \<not> ch_closed (chans st (channel s))"
    and "d' \<noteq> d \<Longrightarrow> channel ` set (index (projectSubscribers st) d) \<inter>
           channel ` set (index (projectSubscribers st) d') = {}"
    and "projectSubscribers st d \<noteq> Some []"
  using assms unfolding wellFormed_def index_def
  by (auto split: option.splits) (metis disjoint_iff imageI)+

lemma index_upd [simp]:
  "index (m(d \<mapsto> l)) d' = (if d' = d then l else index m d')"
  "index (m(d := None)) d' = (if d' = d then [] else index m d')"
  by (simp_all add: index_def)

lemma wellFormed_iff:
  "wellFormed st \<longleftrightarrow>
     (\<forall>d. projectSubscribers st d \<noteq> Some [] \<and>
          distinct (map channel (index (projectSubscribers st) d)) \<and>
          (\<forall>s \<in> set (index (projectSubscribers st) d).
             channel s < nextChan st \<and> \<not> ch_closed (chans st (channel s)))) \<and>
     (\<forall>d d'. d \<noteq> d' \<longrightarrow>
        channel ` set (index (projectSubscribers st) d) \<inter>
        channel ` set (index (projectSubscribers st) d') = {})"
  (is "?L \<longleftrightarrow> ?R")
proof
  assume ?L
  then show ?R
    using wellFormed_index [of st] by blast
next
  assume r: ?R
  show ?L
    unfolding wellFormed_def
  proof (intro conjI allI impI)
    fix d l
    assume l: "projectSubscribers st d = Some l"
    then have i: "index (projectSubscribers st) d = l"
      by (simp add: index_def)
    show "l \<noteq> []"
      using r l by auto
    show "distinct (map channel l)"
      using r i by metis
    show "\<forall>s \<in> set l. channel s < nextChan st \<and> \<not> ch_closed (chans st (channel s))"
      using r i by metis
  next
    fix d d' l l'
    assume "d \<noteq> d'" "projectSubscribers st d = Some l" "projectSubscribers st d' = Some l'"
    then have "d \<noteq> d'" "index (projectSubscribers st) d = l" "index (projectSubscribers st) d' = l'"
      by (simp_all add: index_def)
    then show "channel ` set l \<inter> channel ` set l' = {}"
      using r by metis
  qed
qed

lemma wellFormed_Subscribe:
  assumes "wellFormed st"
  shows "wellFormed (snd (Subscribe d t st))"
proof -
  let ?m = "projectSubscribers st"
  let ?new = "\<lparr>sockedID = t, channel = nextChan st\<rparr>"
  let ?st' = "snd (Subscribe d t st)"
  have m': "projectSubscribers ?st' = ?m(d \<mapsto> index ?m d @ [?new])"
    and c': "chans ?st' = (chans st)(nextChan st := \<lparr>ch_buf = [], ch_cap = 1, ch_closed = False\<rparr>)"
    and n': "nextChan ?st' = Suc (nextChan st)"
    by (simp_all add: Subscribe_def makeChan_def subscribeToProject_def)
  have old: "\<And>e s. s \<in> set (index ?m e) \<Longrightarrow>
      channel s < nextChan st \<and> \<not> ch_closed (chans st (channel s))"
    using wellFormed_index(2) [OF assms] by blast
  have fresh: "\<And>e. nextChan st \<notin> channel ` set (index ?m e)"
    using old by fastforce
  have dist: "\<And>e. distinct (map channel (index ?m e))"
    using wellFormed_index(1) [OF assms] by blast
  have disj: "\<And>e e'. e \<noteq> e' \<Longrightarrow>
      channel ` set (index ?m e) \<inter> channel ` set (index ?m e') = {}"
    using wellFormed_index(3) [OF assms] by blast
  have nonempty: "\<And>e. ?m e \<noteq> Some []"
    using wellFormed_index(4) [OF assms] by blast
  show ?thesis
    unfolding wellFormed_iff m' c' n'
  proof (intro conjI allI impI ballI)
    fix e
    show "(?m(d \<mapsto> index ?m d @ [?new])) e \<noteq> Some []"
      using nonempty [of e] by simp
    show "distinct (map channel (index (?m(d \<mapsto> index ?m d @ [?new])) e))"
      using dist [of e] dist [of d] fresh [of d] by simp
  next
    fix e s
    assume "s \<in> set (index (?m(d \<mapsto> index ?m d @ [?new])) e)"
    then consider "s = ?new" | e' where "s \<in> set (index ?m e')"
      by (auto split: if_splits)
    then show "channel s < Suc (nextChan st)"
      using old by cases force+
  next
    fix e s
    assume "s \<in> set (index (?m(d \<mapsto> index ?m d @ [?new])) e)"
    then consider "s = ?new" | e' where "s \<in> set (index ?m e')"
      by (auto split: if_splits)
    then show "\<not> ch_closed (((chans st)(nextChan st := \<lparr>ch_buf = [], ch_cap = 1, ch_closed = False\<rparr>))
                (channel s))"
      using old by cases force+
  next
    fix e e' :: string
    assume "e \<noteq> e'"
    then show "channel ` set (index (?m(d \<mapsto> index ?m d @ [?new])) e) \<inter>
          channel ` set (index (?m(d \<mapsto> index ?m d @ [?new])) e') = {}"
      using disj [of e e'] fresh [of e] fresh [of e'] by auto
  qed
qed

lemma cleanUp_index [simp]:
  "index (projectSubscribers (cleanUp d st)) e = index (projectSubscribers st) e"
  by (simp add: cleanUp_def)

lemma cleanUp_fields [simp]:
  "chans (cleanUp d st) = chans st"
  "heap (cleanUp d st) = heap st"
  "nextChan (cleanUp d st) = nextChan st"
  by (simp_all add: cleanUp_def)

lemma cleanUp_nonempty:
  "\<forall>e. e \<noteq> d \<longrightarrow> projectSubscribers st e \<noteq> Some [] \<Longrightarrow>
   projectSubscribers (cleanUp d st) e \<noteq> Some []"
  by (auto simp: cleanUp_def index_def split: option.splits)

lemma cleanUp_id:
  "projectSubscribers st d \<noteq> Some [] \<Longrightarrow> cleanUp d st = st"
  by (auto simp: cleanUp_def index_def fun_upd_idem split: option.splits)

text \<open>Unsubscribing a token that the document's list does not hold changes nothing.\<close>

lemma unsubscribeFromProject_absent:
  assumes "socketID \<notin> sockedID ` set (index (projectSubscribers st) d)"
    and "projectSubscribers st d \<noteq> Some []"
  shows "unsubscribeFromProject d socketID st = Inr st"
proof -
  have "unsubscribeLoop socketID (index (projectSubscribers st) d) 0 = None"
    using assms(1) by (simp add: unsubscribeLoop_None)
  then show ?thesis
    using assms(2) by (simp add: unsubscribeFromProject_def cleanUp_id)
qed

text \<open>
  In a well-formed registry, unsubscribing a token that the list holds returns: the first
  subscriber with that token leaves the list, its channel is closed, and the key goes
  with the last subscriber.
\<close>

lemma unsubscribeFromProject_present:
  assumes wf: "wellFormed st"
    and found: "unsubscribeLoop socketID (index (projectSubscribers st) d) 0 = Some (i, s)"
  shows "unsubscribeFromProject d socketID st =
           Inr (cleanUp d
             (st\<lparr>projectSubscribers := (projectSubscribers st)
                    (d \<mapsto> take i (index (projectSubscribers st) d) @
                          drop (Suc i) (index (projectSubscribers st) d)),
                 chans := (chans st)(channel s := (chans st (channel s))\<lparr>ch_closed := True\<rparr>)\<rparr>))"
    and "wellFormed (cleanUp d
             (st\<lparr>projectSubscribers := (projectSubscribers st)
                    (d \<mapsto> take i (index (projectSubscribers st) d) @
                          drop (Suc i) (index (projectSubscribers st) d)),
                 chans := (chans st)(channel s := (chans st (channel s))\<lparr>ch_closed := True\<rparr>)\<rparr>))"
proof -
  let ?m = "projectSubscribers st"
  let ?l = "index ?m d"
  let ?l' = "take i ?l @ drop (Suc i) ?l"
  let ?st2 = "st\<lparr>projectSubscribers := ?m(d \<mapsto> ?l'),
                 chans := (chans st)(channel s := (chans st (channel s))\<lparr>ch_closed := True\<rparr>)\<rparr>"
  from unsubscribeLoop_Some [OF found]
  have i: "i < length ?l" and s: "?l ! i = s"
    by simp_all
  have split: "?l = take i ?l @ s # drop (Suc i) ?l"
    using i s by (metis id_take_nth_drop)
  have mem: "s \<in> set ?l"
    using i s nth_mem by blast
  have sub: "set ?l' \<subseteq> set ?l"
    by (metis Un_least set_append set_drop_subset set_take_subset)
  have "distinct (map channel (take i ?l @ s # drop (Suc i) ?l))"
    using wellFormed_index(1) [OF wf, of d] split by simp
  then have dist': "distinct (map channel ?l')" and notin: "channel s \<notin> channel ` set ?l'"
    by auto
  have old: "\<And>e x. x \<in> set (index ?m e) \<Longrightarrow>
      channel x < nextChan st \<and> \<not> ch_closed (chans st (channel x))"
    using wellFormed_index(2) [OF wf] by blast
  have disj: "\<And>e e'. e \<noteq> e' \<Longrightarrow>
      channel ` set (index ?m e) \<inter> channel ` set (index ?m e') = {}"
    using wellFormed_index(3) [OF wf] by blast
  have other: "\<And>e. e \<noteq> d \<Longrightarrow> channel s \<notin> channel ` set (index ?m e)"
    using disj mem by blast
  have "\<not> ch_closed (chans st (channel s))"
    using old mem by blast
  then show "unsubscribeFromProject d socketID st = Inr (cleanUp d ?st2)"
    using found by (simp add: unsubscribeFromProject_def closeChan_def Let_def)
  show "wellFormed (cleanUp d ?st2)"
    unfolding wellFormed_iff
  proof (intro conjI allI impI ballI)
    fix e
    show "projectSubscribers (cleanUp d ?st2) e \<noteq> Some []"
      using wellFormed_index(4) [OF wf] by (intro cleanUp_nonempty) simp
    show "distinct (map channel (index (projectSubscribers (cleanUp d ?st2)) e))"
      using dist' wellFormed_index(1) [OF wf, of e] by simp
  next
    fix e x
    assume "x \<in> set (index (projectSubscribers (cleanUp d ?st2)) e)"
    then have "(e = d \<and> x \<in> set ?l') \<or> (e \<noteq> d \<and> x \<in> set (index ?m e))"
      by (simp split: if_splits)
    then have x: "x \<in> set (index ?m e)" and ne: "channel x \<noteq> channel s"
      using sub notin other [of e] by (metis subsetD, metis imageI)
    show "channel x < nextChan (cleanUp d ?st2)"
      using old [OF x] by simp
    show "\<not> ch_closed (chans (cleanUp d ?st2) (channel x))"
      using old [OF x] ne by simp
  next
    fix e e' :: string
    assume "e \<noteq> e'"
    then show "channel ` set (index (projectSubscribers (cleanUp d ?st2)) e) \<inter>
        channel ` set (index (projectSubscribers (cleanUp d ?st2)) e') = {}"
      using disj [of e e'] sub by (auto split: if_splits)
  qed
qed

lemma wellFormed_cong:
  assumes "projectSubscribers st' = projectSubscribers st"
    and "nextChan st' = nextChan st"
    and "\<And>c. ch_closed (chans st' c) = ch_closed (chans st c)"
  shows "wellFormed st' = wellFormed st"
  by (simp add: wellFormed_def assms)

lemma wellFormed_broadcast:
  assumes "wellFormed st"
  shows "\<exists>st'. broadcastProjectUpdate d project fromID st = Inr st' \<and> wellFormed st'"
proof (cases "projectSubscribers st d")
  case None
  then show ?thesis
    using assms by (simp add: broadcastProjectUpdate_def)
next
  case (Some subscribers)
  then have "\<forall>s \<in> set subscribers. \<not> ch_closed (chans st (channel s))"
    using assms by (auto simp: wellFormed_def)
  then obtain st' where run: "broadcastLoop project fromID subscribers st = Inr st'"
    using broadcastLoop_returns by blast
  have "wellFormed st' = wellFormed st"
    using broadcastLoop_frame [OF run] by (intro wellFormed_cong) simp_all
  then show ?thesis
    using assms run Some by (simp add: broadcastProjectUpdate_def)
qed

lemma wellFormed_receive:
  assumes "wellFormed st"
  shows "wellFormed (receive ch st)"
proof -
  have "wellFormed (receive ch st) = wellFormed st"
    by (rule wellFormed_cong) (simp_all add: receive_def)
  then show ?thesis
    using assms by simp
qed

lemma wellFormed_unsubscribe:
  assumes "wellFormed st"
  shows "\<exists>st'. unsubscribeFromProject d socketID st = Inr st' \<and> wellFormed st'"
proof (cases "unsubscribeLoop socketID (index (projectSubscribers st) d) 0")
  case None
  then have "unsubscribeFromProject d socketID st = Inr st"
    using wellFormed_index(4) [OF assms, of d]
    by (intro unsubscribeFromProject_absent) (simp_all add: unsubscribeLoop_None)
  then show ?thesis
    using assms by simp
next
  case (Some found)
  then obtain i s where "unsubscribeLoop socketID (index (projectSubscribers st) d) 0 = Some (i, s)"
    by (cases found) simp
  from unsubscribeFromProject_present [OF assms this] show ?thesis
    by blast
qed

lemma step_wellFormed:
  assumes "wellFormed st"
  shows "\<exists>st'. step x st = Inr st' \<and> wellFormed st'"
proof (cases x)
  case (OpSubscribe d t)
  then show ?thesis
    using wellFormed_Subscribe [OF assms] by simp
next
  case (OpUnsubscribe d t)
  then show ?thesis
    using wellFormed_unsubscribe [OF assms] by simp
next
  case (OpBroadcast d p f)
  then show ?thesis
    using wellFormed_broadcast [OF assms] by simp
next
  case (OpReceive c)
  then show ?thesis
    using wellFormed_receive [OF assms] by simp
qed

text \<open>
  Every sequence of operations runs to the end from a well-formed registry, and leaves a
  well-formed registry.
\<close>

lemma run_wellFormed:
  "wellFormed st \<Longrightarrow> \<exists>st'. run ops st = Inr st' \<and> wellFormed st'"
proof (induction ops arbitrary: st)
  case Nil
  then show ?case by simp
next
  case (Cons x xs)
  from step_wellFormed [OF Cons.prems, of x]
  obtain st1 where "step x st = Inr st1" and "wellFormed st1"
    by blast
  then show ?case
    using Cons.IH [of st1] by simp
qed

text \<open>
  C4. After any sequence of Subscribe, Unsubscribe, Broadcast and receive operations on
  the registry of \<open>NewResolver\<close> (every one of which returns), a document id is a key of
  the map if and only if its list of subscribers is not empty; unsubscribing a token that
  the document's list does not hold returns the same state; and unsubscribing the only
  subscriber of a document closes its channel and deletes the key.
\<close>

theorem registry_invariant:
  "\<exists>st. run ops NewResolver = Inr st \<and>
     (d \<in> dom (projectSubscribers st) \<longleftrightarrow> index (projectSubscribers st) d \<noteq> []) \<and>
     (socketID \<notin> sockedID ` set (index (projectSubscribers st) d) \<longrightarrow>
        unsubscribeFromProject d socketID st = Inr st) \<and>
     (index (projectSubscribers st) d = [s] \<longrightarrow>
        (\<exists>st'. unsubscribeFromProject d (sockedID s) st = Inr st' \<and>
               projectSubscribers st' d = None \<and> ch_closed (chans st' (channel s))))"
proof -
  from run_wellFormed [OF wellFormed_NewResolver, of ops]
  obtain st where run: "run ops NewResolver = Inr st" and wf: "wellFormed st"
    by blast
  have ne: "projectSubscribers st d \<noteq> Some []"
    using wellFormed_index(4) [OF wf] .
  have key: "d \<in> dom (projectSubscribers st) \<longleftrightarrow> index (projectSubscribers st) d \<noteq> []"
    using ne by (auto simp: index_def split: option.splits)
  have absent: "unsubscribeFromProject d socketID st = Inr st"
    if "socketID \<notin> sockedID ` set (index (projectSubscribers st) d)"
    using that ne by (rule unsubscribeFromProject_absent)
  have last: "\<exists>st'. unsubscribeFromProject d (sockedID s) st = Inr st' \<and>
               projectSubscribers st' d = None \<and> ch_closed (chans st' (channel s))"
    if one: "index (projectSubscribers st) d = [s]"
  proof -
    have found: "unsubscribeLoop (sockedID s) (index (projectSubscribers st) d) 0 = Some (0, s)"
      by (simp add: one)
    show ?thesis
      using unsubscribeFromProject_present(1) [OF wf found]
      by (simp add: one cleanUp_def)
  qed
  show ?thesis
    using run key absent last by blast
qed

text \<open>
  Two clients subscribe to a document and the first one leaves: the key stays, with the
  second client alone; unsubscribing an unknown token changes nothing; when the second
  client leaves too, the key is deleted.
\<close>

theorem registry_invariant_witness:
  "\<exists>st. run [OpSubscribe ''doc'' ''11111111'', OpSubscribe ''doc'' ''22222222'',
         OpUnsubscribe ''doc'' ''11111111''] NewResolver = Inr st \<and>
     ''doc'' \<in> dom (projectSubscribers st) \<and>
     index (projectSubscribers st) ''doc'' = [\<lparr>sockedID = ''22222222'', channel = 1\<rparr>] \<and>
     ''33333333'' \<notin> sockedID ` set (index (projectSubscribers st) ''doc'') \<and>
     unsubscribeFromProject ''doc'' ''33333333'' st = Inr st \<and>
     (\<exists>st'. unsubscribeFromProject ''doc'' ''22222222'' st = Inr st' \<and>
            projectSubscribers st' ''doc'' = None \<and> ch_closed (chans st' 1))"
proof -
  from registry_invariant
    [of "[OpSubscribe ''doc'' ''11111111'', OpSubscribe ''doc'' ''22222222'',
          OpUnsubscribe ''doc'' ''11111111'']"
        "''doc''" "''33333333''" "\<lparr>sockedID = ''22222222'', channel = 1\<rparr>"]
  obtain st where
    run: "run [OpSubscribe ''doc'' ''11111111'', OpSubscribe ''doc'' ''22222222'',
               OpUnsubscribe ''doc'' ''11111111''] NewResolver = Inr st"
    and key: "''doc'' \<in> dom (projectSubscribers st) \<longleftrightarrow> index (projectSubscribers st) ''doc'' \<noteq> []"
    and absent: "''33333333'' \<notin> sockedID ` set (index (projectSubscribers st) ''doc'') \<longrightarrow>
        unsubscribeFromProject ''doc'' ''33333333'' st = Inr st"
    and last: "index (projectSubscribers st) ''doc'' = [\<lparr>sockedID = ''22222222'', channel = 1\<rparr>] \<longrightarrow>
        (\<exists>st'. unsubscribeFromProject ''doc'' (sockedID \<lparr>sockedID = ''22222222'', channel = 1\<rparr>) st = Inr st' \<and>
               projectSubscribers st' ''doc'' = None \<and>
               ch_closed (chans st' (channel \<lparr>sockedID = ''22222222'', channel = 1\<rparr>)))"
    by blast
  have subs: "index (projectSubscribers st) ''doc'' = [\<lparr>sockedID = ''22222222'', channel = 1\<rparr>]"
    using run
    by (auto simp: Subscribe_def makeChan_def subscribeToProject_def NewResolver_def
        unsubscribeFromProject_def closeChan_def cleanUp_def Let_def index_def)
  show ?thesis
    using run key absent last subs by (intro exI [of _ st]) simp
qed

section \<open>Broadcast: who is sent the update\<close>

text \<open>
  What a broadcast does to the channel of one subscriber of the document, when the
  channels of the document's subscribers are pairwise distinct and open.
\<close>

lemma broadcastProjectUpdate_delivery:
  assumes "projectSubscribers st projectID = Some subscribers"
    and "distinct (map channel subscribers)"
    and "\<forall>x \<in> set subscribers. \<not> ch_closed (chans st (channel x))"
    and "s \<in> set subscribers"
  shows "\<exists>st'. broadcastProjectUpdate projectID project fromID st = Inr st' \<and>
           (sockedID s = fromID \<longrightarrow> chans st' (channel s) = chans st (channel s)) \<and>
           (sockedID s \<noteq> fromID \<longrightarrow>
              \<not> length (ch_buf (chans st (channel s))) < ch_cap (chans st (channel s)) \<longrightarrow>
              chans st' (channel s) = chans st (channel s)) \<and>
           (sockedID s \<noteq> fromID \<longrightarrow>
              length (ch_buf (chans st (channel s))) < ch_cap (chans st (channel s)) \<longrightarrow>
              chans st' (channel s) =
                (chans st (channel s))\<lparr>ch_buf := ch_buf (chans st (channel s)) @ [project]\<rparr>)"
proof -
  from broadcastLoop_returns [OF assms(3)]
  obtain st' where run: "broadcastLoop project fromID subscribers st = Inr st'"
    by blast
  have origin: "chans st' (channel s) = chans st (channel s)" if "sockedID s = fromID"
  proof -
    have "\<forall>y \<in> set subscribers. channel y = channel s \<longrightarrow> sockedID y = fromID"
      using assms(2,4) that by (metis distinct_map inj_on_def)
    then show ?thesis
      using run by (rule broadcastLoop_untouched [rotated])
  qed
  have full: "chans st' (channel s) = chans st (channel s)"
    if "\<not> length (ch_buf (chans st (channel s))) < ch_cap (chans st (channel s))"
    using run that by (rule broadcastLoop_full)
  have room: "chans st' (channel s) =
      (chans st (channel s))\<lparr>ch_buf := ch_buf (chans st (channel s)) @ [project]\<rparr>"
    if "sockedID s \<noteq> fromID"
      and "length (ch_buf (chans st (channel s))) < ch_cap (chans st (channel s))"
    using broadcastLoop_delivers [OF run assms(2,4) that] .
  show ?thesis
    using run origin full room assms(1) by (simp add: broadcastProjectUpdate_def)
qed

text \<open>In a state that the registry's operations have produced, the lemma applies.\<close>

lemma run_subscribers:
  assumes "run ops NewResolver = Inr st"
    and "projectSubscribers st projectID = Some subscribers"
  shows "distinct (map channel subscribers)"
    and "\<forall>x \<in> set subscribers. \<not> ch_closed (chans st (channel x))"
proof -
  from run_wellFormed [OF wellFormed_NewResolver, of ops] assms(1)
  have "wellFormed st"
    by auto
  then show "distinct (map channel subscribers)"
    and "\<forall>x \<in> set subscribers. \<not> ch_closed (chans st (channel x))"
    using assms(2) by (auto simp: wellFormed_def)
qed

text \<open>
  C2. For every state that the registry reaches from \<open>NewResolver\<close> by Subscribe,
  Unsubscribe, Broadcast and receive operations, every document, update and origin token:
  the broadcast returns; the channel of a subscriber of the document whose token is the
  origin token is left exactly as it was; and every other subscriber of the document whose
  channel has room has the update appended to its channel.
\<close>

theorem broadcast_excludes_origin:
  assumes "run ops NewResolver = Inr st"
    and "projectSubscribers st projectID = Some subscribers"
    and "s \<in> set subscribers"
  shows "\<exists>st'. broadcastProjectUpdate projectID project fromID st = Inr st' \<and>
           (sockedID s = fromID \<longrightarrow> chans st' (channel s) = chans st (channel s)) \<and>
           (sockedID s \<noteq> fromID \<and>
            length (ch_buf (chans st (channel s))) < ch_cap (chans st (channel s)) \<longrightarrow>
              ch_buf (chans st' (channel s)) = ch_buf (chans st (channel s)) @ [project])"
proof -
  from broadcastProjectUpdate_delivery
    [OF assms(2) run_subscribers [OF assms(1,2)] assms(3), of project fromID]
  obtain st' where ret: "broadcastProjectUpdate projectID project fromID st = Inr st'"
    and origin: "sockedID s = fromID \<longrightarrow> chans st' (channel s) = chans st (channel s)"
    and room: "sockedID s \<noteq> fromID \<longrightarrow>
        length (ch_buf (chans st (channel s))) < ch_cap (chans st (channel s)) \<longrightarrow>
        chans st' (channel s) =
          (chans st (channel s))\<lparr>ch_buf := ch_buf (chans st (channel s)) @ [project]\<rparr>"
    by blast
  have "ch_buf (chans st' (channel s)) = ch_buf (chans st (channel s)) @ [project]"
    if "sockedID s \<noteq> fromID"
      and "length (ch_buf (chans st (channel s))) < ch_cap (chans st (channel s))"
  proof -
    have "chans st' (channel s) =
        (chans st (channel s))\<lparr>ch_buf := ch_buf (chans st (channel s)) @ [project]\<rparr>"
      using room that by blast
    then show ?thesis
      by simp
  qed
  then show ?thesis
    using ret origin by blast
qed

text \<open>
  Two clients have subscribed to a document; the first one's edit is broadcast. Its own
  channel stays empty and the other client's channel holds the update.
\<close>

theorem broadcast_excludes_origin_witness:
  "\<exists>st. run [OpSubscribe ''doc'' ''11111111'', OpSubscribe ''doc'' ''22222222''] NewResolver
           = Inr st \<and>
        projectSubscribers st ''doc''
          = Some [\<lparr>sockedID = ''11111111'', channel = 0\<rparr>, \<lparr>sockedID = ''22222222'', channel = 1\<rparr>] \<and>
        ch_buf (chans st 0) = [] \<and> ch_buf (chans st 1) = [] \<and> ch_cap (chans st 1) = 1 \<and>
        (\<exists>st'. broadcastProjectUpdate ''doc'' 7 ''11111111'' st = Inr st' \<and>
               ch_buf (chans st' 0) = [] \<and> ch_buf (chans st' 1) = [7])"
proof -
  let ?ops = "[OpSubscribe ''doc'' ''11111111'', OpSubscribe ''doc'' ''22222222'']"
  let ?subs = "[\<lparr>sockedID = ''11111111'', channel = 0\<rparr>, \<lparr>sockedID = ''22222222'', channel = 1\<rparr>]"
  have run: "run ?ops NewResolver = Inr twoSubscribers"
    by simp
  have reg: "projectSubscribers twoSubscribers ''doc'' = Some ?subs"
    by (simp add: Subscribe_def makeChan_def subscribeToProject_def NewResolver_def index_def)
  have ch: "chans twoSubscribers 0 = \<lparr>ch_buf = [], ch_cap = 1, ch_closed = False\<rparr>"
      "chans twoSubscribers 1 = \<lparr>ch_buf = [], ch_cap = 1, ch_closed = False\<rparr>"
    by (simp_all add: Subscribe_def makeChan_def subscribeToProject_def NewResolver_def)
  from broadcast_excludes_origin
         [OF run reg, of "\<lparr>sockedID = ''11111111'', channel = 0\<rparr>" 7 "''11111111''"]
       broadcast_excludes_origin
         [OF run reg, of "\<lparr>sockedID = ''22222222'', channel = 1\<rparr>" 7 "''11111111''"]
  have "\<exists>st'. broadcastProjectUpdate ''doc'' 7 ''11111111'' twoSubscribers = Inr st' \<and>
          ch_buf (chans st' 0) = [] \<and> ch_buf (chans st' 1) = [7]"
    using ch by auto
  then show ?thesis
    using run reg ch by (intro exI [of _ twoSubscribers]) simp
qed

section \<open>Broadcast: the socket id of the record\<close>

text \<open>
  The record is shared: when the broadcast has returned, its socket id is the token of the
  last subscriber of the document that is not the origin, for every receiver.
\<close>

lemma broadcastProjectUpdate_record_shared:
  assumes "projectSubscribers st projectID = Some subscribers"
    and "broadcastProjectUpdate projectID project fromID st = Inr st'"
    and "filter (\<lambda>x. sockedID x \<noteq> fromID) subscribers \<noteq> []"
  shows "SocketID (heap st' project) =
           sockedID (last (filter (\<lambda>x. sockedID x \<noteq> fromID) subscribers))"
proof -
  have run: "broadcastLoop project fromID subscribers st = Inr st'"
    using assms(1,2) by (simp add: broadcastProjectUpdate_def)
  obtain x xs where xs: "filter (\<lambda>x. sockedID x \<noteq> fromID) subscribers = x # xs"
    using assms(3) by (cases "filter (\<lambda>x. sockedID x \<noteq> fromID) subscribers") simp_all
  show ?thesis
    using broadcastLoop_heap [OF run] unfolding xs by simp
qed

text \<open>
  C3, as stated, fails: the loop writes the token of the receiving subscriber, not the
  origin token, into the record before it sends it. The client with token 11111111
  originates an update; the record queued for the client with token 22222222 has socket
  id 22222222.
\<close>

theorem broadcast_socketID_counterexample:
  "broadcastProjectUpdate ''doc'' 7 ''11111111'' twoSubscribers =
     Inr (twoSubscribers
       \<lparr>chans := (chans twoSubscribers)(1 := (chans twoSubscribers 1)\<lparr>ch_buf := [7]\<rparr>),
        heap := (heap twoSubscribers)(7 := (heap twoSubscribers 7)\<lparr>SocketID := ''22222222''\<rparr>)\<rparr>) \<and>
   ''22222222'' \<noteq> ''11111111''"
  by (simp add: broadcastProjectUpdate_def Subscribe_def makeChan_def subscribeToProject_def
        NewResolver_def index_def Let_def)

text \<open>
  C3, amended. Let the channels of the document's subscribers be open and let
  \<open>subscriber\<close> be one of them whose token is not the origin token. The broadcast
  returns, and it passes through the turn of \<open>subscriber\<close>, from a state \<open>st0\<close> to a
  state \<open>st1\<close>: after that turn the record's socket id is the token of \<open>subscriber\<close>,
  the receiver, which is not the origin token; and if the channel of \<open>subscriber\<close> had
  room, the record has been appended to it in that turn.
\<close>

theorem broadcast_socketID_is_recipient:
  assumes "projectSubscribers st projectID = Some (before @ subscriber # after)"
    and "sockedID subscriber \<noteq> fromID"
    and "\<forall>x \<in> set (before @ subscriber # after). \<not> ch_closed (chans st (channel x))"
  shows "\<exists>st0 st1 st'.
           broadcastLoop project fromID before st = Inr st0 \<and>
           broadcastLoop project fromID [subscriber] st0 = Inr st1 \<and>
           broadcastLoop project fromID after st1 = Inr st' \<and>
           broadcastProjectUpdate projectID project fromID st = Inr st' \<and>
           SocketID (heap st1 project) = sockedID subscriber \<and>
           SocketID (heap st1 project) \<noteq> fromID \<and>
           (length (ch_buf (chans st0 (channel subscriber))) < ch_cap (chans st0 (channel subscriber))
              \<longrightarrow> ch_buf (chans st1 (channel subscriber))
                    = ch_buf (chans st0 (channel subscriber)) @ [project])"
proof -
  let ?all = "before @ subscriber # after"
  from broadcastLoop_returns [OF assms(3)]
  obtain st' where run: "broadcastLoop project fromID ?all st = Inr st'"
    by blast
  have "\<forall>x \<in> set before. \<not> ch_closed (chans st (channel x))"
    using assms(3) by simp
  from broadcastLoop_returns [OF this]
  obtain st0 where run0: "broadcastLoop project fromID before st = Inr st0"
    by blast
  have rest: "broadcastLoop project fromID (subscriber # after) st0 = Inr st'"
    using run run0 by (simp add: broadcastLoop_append del: broadcastLoop.simps)
  from broadcastLoop_Cons [OF rest] assms(2)
  obtain st1 where run2: "broadcastLoop project fromID after st1 = Inr st'"
    and opn: "\<not> ch_closed (chans st0 (channel subscriber))"
    and h: "heap st1 = (heap st0)(project := (heap st0 project)\<lparr>SocketID := sockedID subscriber\<rparr>)"
    and same: "projectSubscribers st1 = projectSubscribers st0" "nextChan st1 = nextChan st0"
    and room: "length (ch_buf (chans st0 (channel subscriber))) < ch_cap (chans st0 (channel subscriber))
        \<longrightarrow> chans st1 = (chans st0)(channel subscriber :=
               (chans st0 (channel subscriber))
                 \<lparr>ch_buf := ch_buf (chans st0 (channel subscriber)) @ [project]\<rparr>)"
    and full: "\<not> length (ch_buf (chans st0 (channel subscriber))) < ch_cap (chans st0 (channel subscriber))
        \<longrightarrow> chans st1 = chans st0"
    by blast
  have st1: "st1 =
      (if length (ch_buf (chans st0 (channel subscriber))) < ch_cap (chans st0 (channel subscriber))
       then st0\<lparr>heap := (heap st0)(project := (heap st0 project)\<lparr>SocketID := sockedID subscriber\<rparr>),
                chans := (chans st0)(channel subscriber :=
                  (chans st0 (channel subscriber))
                    \<lparr>ch_buf := ch_buf (chans st0 (channel subscriber)) @ [project]\<rparr>)\<rparr>
       else st0\<lparr>heap := (heap st0)(project := (heap st0 project)\<lparr>SocketID := sockedID subscriber\<rparr>)\<rparr>)"
    using h same room full by simp
  have turn: "broadcastLoop project fromID [subscriber] st0 = Inr st1"
    using assms(2) opn by (simp add: st1 Let_def)
  have sid: "SocketID (heap st1 project) = sockedID subscriber"
    by (simp add: h)
  have buf: "ch_buf (chans st1 (channel subscriber))
        = ch_buf (chans st0 (channel subscriber)) @ [project]"
    if "length (ch_buf (chans st0 (channel subscriber))) < ch_cap (chans st0 (channel subscriber))"
    using room that by simp
  show ?thesis
    using run run0 turn run2 sid buf assms(1,2) by (auto simp: broadcastProjectUpdate_def)
qed

theorem broadcast_socketID_is_recipient_witness:
  "projectSubscribers twoSubscribers ''doc''
     = Some ([\<lparr>sockedID = ''11111111'', channel = 0\<rparr>] @ \<lparr>sockedID = ''22222222'', channel = 1\<rparr> # []) \<and>
   sockedID \<lparr>sockedID = ''22222222'', channel = 1\<rparr> \<noteq> ''11111111'' \<and>
   \<not> ch_closed (chans twoSubscribers 0) \<and> \<not> ch_closed (chans twoSubscribers 1) \<and>
   (\<exists>st'. broadcastProjectUpdate ''doc'' 7 ''11111111'' twoSubscribers = Inr st' \<and>
          SocketID (heap st' 7) = ''22222222'')"
proof -
  have reg: "projectSubscribers twoSubscribers ''doc''
      = Some ([\<lparr>sockedID = ''11111111'', channel = 0\<rparr>] @ \<lparr>sockedID = ''22222222'', channel = 1\<rparr> # [])"
    by (simp add: Subscribe_def makeChan_def subscribeToProject_def NewResolver_def index_def)
  have ne: "sockedID \<lparr>sockedID = ''22222222'', channel = 1\<rparr> \<noteq> ''11111111''"
    by simp
  have ch: "\<not> ch_closed (chans twoSubscribers 0)" "\<not> ch_closed (chans twoSubscribers 1)"
    by (simp_all add: Subscribe_def makeChan_def subscribeToProject_def NewResolver_def)
  have o: "\<forall>x \<in> set ([\<lparr>sockedID = ''11111111'', channel = 0\<rparr>] @ \<lparr>sockedID = ''22222222'', channel = 1\<rparr> # []).
      \<not> ch_closed (chans twoSubscribers (channel x))"
    using ch by simp
  from broadcast_socketID_is_recipient [OF reg ne o, of 7]
  obtain st1 st' where "broadcastLoop 7 ''11111111'' [] st1 = Inr st'"
    and "broadcastProjectUpdate ''doc'' 7 ''11111111'' twoSubscribers = Inr st'"
    and "SocketID (heap st1 7) = sockedID \<lparr>sockedID = ''22222222'', channel = 1\<rparr>"
    by blast
  then have "\<exists>st'. broadcastProjectUpdate ''doc'' 7 ''11111111'' twoSubscribers = Inr st' \<and>
          SocketID (heap st' 7) = ''22222222''"
    by simp
  then show ?thesis
    using reg ne ch by simp
qed

section \<open>Broadcast: full and closed channels\<close>

text \<open>
  A closed channel that is still registered: three clients have subscribed and the
  channel of the second one is closed without an unsubscribe. No sequence of registry
  operations reaches such a state; in it, the send would panic instead of being skipped.
\<close>

lemma closed_registered_unreachable:
  "run ops NewResolver \<noteq>
     Inr (threeSubscribers
       \<lparr>chans := (chans threeSubscribers)(1 := (chans threeSubscribers 1)\<lparr>ch_closed := True\<rparr>)\<rparr>)"
proof
  let ?bad = "threeSubscribers
       \<lparr>chans := (chans threeSubscribers)(1 := (chans threeSubscribers 1)\<lparr>ch_closed := True\<rparr>)\<rparr>"
  assume reach: "run ops NewResolver = Inr ?bad"
  have reg: "projectSubscribers ?bad ''doc''
      = Some [\<lparr>sockedID = ''11111111'', channel = 0\<rparr>, \<lparr>sockedID = ''22222222'', channel = 1\<rparr>,
              \<lparr>sockedID = ''33333333'', channel = 2\<rparr>]"
    by (simp add: Subscribe_def makeChan_def subscribeToProject_def NewResolver_def index_def)
  have "\<not> ch_closed (chans ?bad (channel \<lparr>sockedID = ''22222222'', channel = 1\<rparr>))"
    using run_subscribers(2) [OF reach reg] by simp
  then show False
    by simp
qed

lemma closed_registered_panics:
  "broadcastProjectUpdate ''doc'' 7 ''11111111''
     (threeSubscribers
        \<lparr>chans := (chans threeSubscribers)(1 := (chans threeSubscribers 1)\<lparr>ch_closed := True\<rparr>)\<rparr>)
     = Inl SendOnClosedChannel"
  by (simp add: broadcastProjectUpdate_def Subscribe_def makeChan_def subscribeToProject_def
        NewResolver_def index_def Let_def)

text \<open>
  C5. In every state that the registry reaches from \<open>NewResolver\<close> by Subscribe,
  Unsubscribe, Broadcast and receive operations, and for every broadcast call: the
  channels of the document's subscribers are open, so the broadcast performs no send on a
  closed channel; the broadcast returns, without blocking and without error; a subscriber
  other than the origin whose channel is full is skipped, its channel left exactly as it
  was (nothing queued, nothing retried); and a subscriber other than the origin whose
  channel has room has the update appended, whatever the channels of the other
  subscribers hold.
\<close>

theorem broadcast_skips_full_channel:
  assumes "run ops NewResolver = Inr st"
    and "projectSubscribers st projectID = Some subscribers"
    and "s \<in> set subscribers"
    and "sockedID s \<noteq> fromID"
  shows "(\<forall>x \<in> set subscribers. \<not> ch_closed (chans st (channel x))) \<and>
         (\<exists>st'. broadcastProjectUpdate projectID project fromID st = Inr st' \<and>
            (\<not> length (ch_buf (chans st (channel s))) < ch_cap (chans st (channel s)) \<longrightarrow>
               chans st' (channel s) = chans st (channel s)) \<and>
            (length (ch_buf (chans st (channel s))) < ch_cap (chans st (channel s)) \<longrightarrow>
               ch_buf (chans st' (channel s)) = ch_buf (chans st (channel s)) @ [project]))"
proof -
  note sub = run_subscribers [OF assms(1,2)]
  from broadcastProjectUpdate_delivery [OF assms(2) sub assms(3), of project fromID] assms(4)
  obtain st' where ret: "broadcastProjectUpdate projectID project fromID st = Inr st'"
    and full: "\<not> length (ch_buf (chans st (channel s))) < ch_cap (chans st (channel s)) \<longrightarrow>
        chans st' (channel s) = chans st (channel s)"
    and room: "length (ch_buf (chans st (channel s))) < ch_cap (chans st (channel s)) \<longrightarrow>
        chans st' (channel s) =
          (chans st (channel s))\<lparr>ch_buf := ch_buf (chans st (channel s)) @ [project]\<rparr>"
    by blast
  have "ch_buf (chans st' (channel s)) = ch_buf (chans st (channel s)) @ [project]"
    if "length (ch_buf (chans st (channel s))) < ch_cap (chans st (channel s))"
  proof -
    have "chans st' (channel s) =
        (chans st (channel s))\<lparr>ch_buf := ch_buf (chans st (channel s)) @ [project]\<rparr>"
      using room that by blast
    then show ?thesis
      by simp
  qed
  then show ?thesis
    using ret full sub(2) by blast
qed

text \<open>
  Three clients subscribe and the first one's edit is broadcast, which fills the channels
  of the other two. The second client then sends an edit before anyone has read: the
  third client's channel, still full, keeps the earlier update alone, and the first
  client's channel gets the new one.
\<close>

theorem broadcast_skips_full_channel_witness:
  "\<exists>st. run [OpSubscribe ''doc'' ''11111111'', OpSubscribe ''doc'' ''22222222'',
             OpSubscribe ''doc'' ''33333333'', OpBroadcast ''doc'' 7 ''11111111''] NewResolver
           = Inr st \<and>
        projectSubscribers st ''doc''
          = Some [\<lparr>sockedID = ''11111111'', channel = 0\<rparr>, \<lparr>sockedID = ''22222222'', channel = 1\<rparr>,
                  \<lparr>sockedID = ''33333333'', channel = 2\<rparr>] \<and>
        ch_buf (chans st 2) = [7] \<and> ch_cap (chans st 2) = 1 \<and>
        (\<exists>st'. broadcastProjectUpdate ''doc'' 8 ''22222222'' st = Inr st' \<and>
               ch_buf (chans st' 2) = [7] \<and> ch_buf (chans st' 0) = [8])"
proof -
  let ?ops = "[OpSubscribe ''doc'' ''11111111'', OpSubscribe ''doc'' ''22222222'',
               OpSubscribe ''doc'' ''33333333'', OpBroadcast ''doc'' 7 ''11111111'']"
  let ?subs = "[\<lparr>sockedID = ''11111111'', channel = 0\<rparr>, \<lparr>sockedID = ''22222222'', channel = 1\<rparr>,
                \<lparr>sockedID = ''33333333'', channel = 2\<rparr>]"
  from run_wellFormed [OF wellFormed_NewResolver, of ?ops]
  obtain st where run: "run ?ops NewResolver = Inr st"
    by blast
  have reg: "projectSubscribers st ''doc'' = Some ?subs"
    and c0: "chans st 0 = \<lparr>ch_buf = [], ch_cap = 1, ch_closed = False\<rparr>"
    and c2: "chans st 2 = \<lparr>ch_buf = [7], ch_cap = 1, ch_closed = False\<rparr>"
    using run
    by (auto simp: Subscribe_def makeChan_def subscribeToProject_def NewResolver_def
        broadcastProjectUpdate_def Let_def index_def)
  from broadcast_skips_full_channel
         [OF run reg, of "\<lparr>sockedID = ''33333333'', channel = 2\<rparr>" "''22222222''" 8]
       broadcast_skips_full_channel
         [OF run reg, of "\<lparr>sockedID = ''11111111'', channel = 0\<rparr>" "''22222222''" 8]
  have "\<exists>st'. broadcastProjectUpdate ''doc'' 8 ''22222222'' st = Inr st' \<and>
               ch_buf (chans st' 2) = [7] \<and> ch_buf (chans st' 0) = [8]"
    using c0 c2 by auto
  then show ?thesis
    using run reg c2 by (intro exI [of _ st]) simp
qed

end
